theory Spec2Isabelle
  imports Complex_Main "HOL-Library.Word"
begin

section \<open>JavaScript strings\<close>

text \<open>
  The daemon is TypeScript. A JavaScript string is a sequence of UTF-16 code units; the
  model uses \<open>string\<close>, that is the strings whose code units lie in U+0000..U+00FF, one
  \<open>char\<close> per code unit, so that \<open>length\<close> is the \<open>.length\<close> of the source.
\<close>

definition startsWith :: "string \<Rightarrow> string \<Rightarrow> bool" where
  "startsWith s p = (take (length p) s = p)"

text \<open>\<open>String.prototype.toLowerCase\<close> on the code units below U+0100: the ASCII capitals
  and the Latin-1 capitals U+00C0..U+00DE (U+00D7 is the multiplication sign) move up by 32.\<close>

definition toLowerCaseChar :: "char \<Rightarrow> char" where
  "toLowerCaseChar c =
     (let n = (of_char c :: nat)
      in if (65 \<le> n \<and> n \<le> 90) \<or> (192 \<le> n \<and> n \<le> 222 \<and> n \<noteq> 215)
         then char_of (n + 32) else c)"

definition toLowerCase :: "string \<Rightarrow> string" where
  "toLowerCase s = map toLowerCaseChar s"

text \<open>\<open>s.split(sep)\<close> for a separator of one character: never the empty array.\<close>

fun split_on :: "char \<Rightarrow> string \<Rightarrow> string list" where
  "split_on sep [] = [[]]"
| "split_on sep (c # cs) =
     (if c = sep then [] # split_on sep cs
      else (case split_on sep cs of
              [] \<Rightarrow> [[c]]
            | t # ts \<Rightarrow> (c # t) # ts))"

text \<open>The first occurrence of \<open>pat\<close> in \<open>s\<close>: the text before it and the text after it.\<close>

fun find_first :: "string \<Rightarrow> string \<Rightarrow> (string \<times> string) option" where
  "find_first pat [] = (if pat = [] then Some ([], []) else None)"
| "find_first pat (c # cs) =
     (if startsWith (c # cs) pat then Some ([], drop (length pat) (c # cs))
      else (case find_first pat cs of
              None \<Rightarrow> None
            | Some (pre, post) \<Rightarrow> Some (c # pre, post)))"

text \<open>
  \<open>GetSubstitution\<close> of ECMAScript for a string pattern (no capture groups, no named
  groups): in the replacement text \<open>$$\<close> is a dollar, \<open>$&\<close> the matched text, \<open>$`\<close> the
  text before the match and \<open>$'\<close> the text after it; a dollar before anything else,
  digits included, stands for itself.
\<close>

fun getSubstitution :: "string \<Rightarrow> string \<Rightarrow> string \<Rightarrow> string \<Rightarrow> string" where
  "getSubstitution matched pre post [] = []"
| "getSubstitution matched pre post [c] = [c]"
| "getSubstitution matched pre post (c # d # r) =
     (if c = CHR ''$'' \<and> d = CHR ''$'' then CHR ''$'' # getSubstitution matched pre post r
      else if c = CHR ''$'' \<and> d = CHR ''&'' then matched @ getSubstitution matched pre post r
      else if c = CHR ''$'' \<and> d = CHR 0x60 then pre @ getSubstitution matched pre post r
      else if c = CHR ''$'' \<and> d = CHR 0x27 then post @ getSubstitution matched pre post r
      else c # getSubstitution matched pre post (d # r))"

text \<open>\<open>s.replace(pat, rep)\<close> with a string pattern: only the first occurrence is replaced.\<close>

definition replace_str :: "string \<Rightarrow> string \<Rightarrow> string \<Rightarrow> string" where
  "replace_str s pat rep =
     (case find_first pat s of
        None \<Rightarrow> s
      | Some (pre, post) \<Rightarrow> pre @ getSubstitution pat pre post rep @ post)"

text \<open>\<open>s.replace(/ /g, "_")\<close>: every space, the replacement has no dollar.\<close>

definition replace_spaces :: "string \<Rightarrow> string" where
  "replace_spaces s = map (\<lambda>c. if c = CHR '' '' then CHR ''_'' else c) s"

lemma find_first_Some: "find_first pat s = Some (pre, post) \<Longrightarrow> s = pre @ pat @ post"
proof (induction s arbitrary: pre)
  case Nil
  then show ?case by (simp split: if_splits)
next
  case (Cons c cs)
  show ?case
  proof (cases "startsWith (c # cs) pat")
    case True
    with Cons.prems have "pre = []" "post = drop (length pat) (c # cs)" by simp_all
    moreover from True have "c # cs = pat @ drop (length pat) (c # cs)"
      unfolding startsWith_def by (metis append_take_drop_id)
    ultimately show ?thesis by simp
  next
    case False
    with Cons.prems obtain pre' where "find_first pat cs = Some (pre', post)" "pre = c # pre'"
      by (auto split: option.splits)
    with Cons.IH show ?thesis by simp
  qed
qed

lemma getSubstitution_plain:
  "CHR ''$'' \<notin> set rep \<Longrightarrow> getSubstitution matched pre post rep = rep"
  by (induction matched pre post rep rule: getSubstitution.induct) auto

text \<open>With no dollar in the replacement, the first occurrence is exchanged for it and the
  rest of the text, later occurrences included, stays.\<close>

lemma replace_str_first:
  assumes "find_first pat s = Some (pre, post)" "CHR ''$'' \<notin> set rep"
  shows "s = pre @ pat @ post \<and> replace_str s pat rep = pre @ rep @ post"
  using assms find_first_Some [OF assms(1)] by (simp add: replace_str_def getSubstitution_plain)

subsection \<open>parseInt with radix 10\<close>

text \<open>White space and line terminators of ECMAScript below U+0100.\<close>

definition isStrWhiteSpaceChar :: "char \<Rightarrow> bool" where
  "isStrWhiteSpaceChar c = ((of_char c :: nat) \<in> {9, 10, 11, 12, 13, 32, 160})"

definition isDigit :: "char \<Rightarrow> bool" where
  "isDigit c = (48 \<le> (of_char c :: nat) \<and> (of_char c :: nat) \<le> 57)"

definition digitsValue :: "string \<Rightarrow> nat" where
  "digitsValue ds = foldl (\<lambda>acc c. 10 * acc + ((of_char c :: nat) - 48)) 0 ds"

text \<open>
  \<open>parseInt(s, 10)\<close>: leading white space is dropped, one sign is read, then the longest
  run of decimal digits; whatever follows is ignored. \<open>None\<close> is \<open>NaN\<close> (no digit). The
  result is the exact integer: the source compares it with a string length, which is below
  \<open>2^53\<close>, where rounding to a double cannot change the comparison.
\<close>

definition parseInt10 :: "string \<Rightarrow> int option" where
  "parseInt10 s =
     (let t = dropWhile isStrWhiteSpaceChar s;
          neg = (t \<noteq> [] \<and> hd t = CHR ''-'');
          u = (if t \<noteq> [] \<and> (hd t = CHR ''-'' \<or> hd t = CHR ''+'') then tl t else t);
          ds = takeWhile isDigit u
      in if ds = [] then None
         else Some (if neg then - int (digitsValue ds) else int (digitsValue ds)))"

section \<open>Template engine (routers/servers.ts)\<close>

record variable =
  name :: string
  description :: "string option"
  defaultValue :: string
  currentValue :: "string option"
  rules :: string

record cargoFile =
  cargo_id :: string
  url :: string
  targetPath :: string

datatype error =
    VariableRuleViolation string string
  | UnknownCargo string

text \<open>The loop of \<open>validateVariableValue\<close> over the rule list; the \<open>switch (true)\<close> takes
  the first case that holds, \<open>return\<close> leaves the loop.\<close>

fun validateRules :: "string \<Rightarrow> string list \<Rightarrow> bool" where
  "validateRules v [] = True"
| "validateRules v (rule # rest) =
     (if rule = ''nullable'' then (if v = [] then True else validateRules v rest)
      else if rule = ''string'' then validateRules v rest
      else if startsWith rule ''max:'' then
        (case parseInt10 (drop 4 rule) of
           None \<Rightarrow> validateRules v rest
         | Some m \<Rightarrow> if int (length v) > m then False else validateRules v rest)
      else validateRules v rest)"

definition validateVariableValue :: "string \<Rightarrow> string \<Rightarrow> bool" where
  "validateVariableValue v rs = validateRules v (split_on CHR ''|'' rs)"

text \<open>\<open>variable.currentValue ?? variable.defaultValue\<close>\<close>

definition variableValue :: "variable \<Rightarrow> string" where
  "variableValue var = (case currentValue var of None \<Rightarrow> defaultValue var | Some v \<Rightarrow> v)"

definition placeholder :: "variable \<Rightarrow> string" where
  "placeholder var = ''%'' @ replace_spaces (toLowerCase (name var)) @ ''%''"

text \<open>The \<open>for (const variable of variables)\<close> loop of \<open>processVariables\<close>.\<close>

fun substituteVariables :: "string \<Rightarrow> variable list \<Rightarrow> error + string" where
  "substituteVariables result [] = Inr result"
| "substituteVariables result (var # vars) =
     (if \<not> validateVariableValue (variableValue var) (rules var)
      then Inl (VariableRuleViolation (name var) (rules var))
      else substituteVariables (replace_str result (placeholder var) (variableValue var)) vars)"

text \<open>Removing a literal prefix: \<open>None\<close> when \<open>s\<close> does not start with it.\<close>

fun strip_prefix :: "string \<Rightarrow> string \<Rightarrow> string option" where
  "strip_prefix [] s = Some s"
| "strip_prefix (p # ps) [] = None"
| "strip_prefix (p # ps) (c # cs) = (if p = c then strip_prefix ps cs else None)"

text \<open>
  The regular expression \<open>/%cargo:\['([^']+)'\]%/\<close> tried at the head of \<open>s\<close>: the group
  is the longest run of characters other than the quote, it must not be empty and the
  text \<open>']%\<close> must follow. The result is the group and the text after the match.
\<close>

definition match_cargo :: "string \<Rightarrow> (string \<times> string) option" where
  "match_cargo s =
     (case strip_prefix (''%cargo:['' @ [CHR 0x27]) s of
        None \<Rightarrow> None
      | Some r \<Rightarrow>
          (let p = takeWhile (\<lambda>c. c \<noteq> CHR 0x27) r;
               q = dropWhile (\<lambda>c. c \<noteq> CHR 0x27) r
           in if p = [] then None
              else (case strip_prefix (CHR 0x27 # '']%'') q of
                      None \<Rightarrow> None
                    | Some rest \<Rightarrow> Some (p, rest))))"

lemma strip_prefix_Some: "strip_prefix p s = Some r \<Longrightarrow> s = p @ r"
  by (induction p s rule: strip_prefix.induct) (auto split: if_splits)

lemma match_cargo_shorter: "match_cargo s = Some (p, r) \<Longrightarrow> length r < length s"
proof -
  assume m: "match_cargo s = Some (p, r)"
  then obtain r1 where r1: "strip_prefix (''%cargo:['' @ [CHR 0x27]) s = Some r1"
    by (auto simp: match_cargo_def split: option.splits)
  with m have "strip_prefix (CHR 0x27 # '']%'') (dropWhile (\<lambda>c. c \<noteq> CHR 0x27) r1) = Some r"
    by (auto simp: match_cargo_def Let_def split: option.splits if_splits)
  then have "length r < length (dropWhile (\<lambda>c. c \<noteq> CHR 0x27) r1)"
    by (auto dest!: strip_prefix_Some)
  also have "\<dots> \<le> length r1" by (rule length_dropWhile_le)
  also from r1 have "\<dots> \<le> length s" by (auto dest!: strip_prefix_Some)
  finally show ?thesis .
qed

text \<open>
  \<open>result.replace(cargoRegex, callback)\<close> with the global flag: matches are taken from
  left to right, the scan goes on after each match, and the callback's result (the path)
  is inserted as it is. The callback throws for a path that no cargo entry has.
\<close>

function replaceCargo :: "cargoFile list \<Rightarrow> string \<Rightarrow> error + string" where
  "replaceCargo cargo [] = Inr []"
| "replaceCargo cargo (c # cs) =
     (case match_cargo (c # cs) of
        None \<Rightarrow> (case replaceCargo cargo cs of Inl e \<Rightarrow> Inl e | Inr t \<Rightarrow> Inr (c # t))
      | Some (p, r) \<Rightarrow>
          (if \<exists>f \<in> set cargo. targetPath f = p
           then (case replaceCargo cargo r of Inl e \<Rightarrow> Inl e | Inr t \<Rightarrow> Inr (p @ t))
           else Inl (UnknownCargo p)))"
  by pat_completeness auto
termination
  by (relation "measure (\<lambda>(cargo, s). length s)") (auto dest: match_cargo_shorter)

definition processVariables ::
  "string \<Rightarrow> variable list \<Rightarrow> cargoFile list option \<Rightarrow> error + string" where
  "processVariables input variables cargo =
     (case substituteVariables input variables of
        Inl e \<Rightarrow> Inl e
      | Inr result \<Rightarrow>
          (case cargo of None \<Rightarrow> Inr result | Some cs \<Rightarrow> replaceCargo cs result))"

subsection \<open>The rule grammar\<close>

text \<open>The tokens the rule grammar names: \<open>nullable\<close>, \<open>string\<close> and \<open>max:N\<close> with \<open>N\<close> a
  decimal numeral.\<close>

definition knownToken :: "string \<Rightarrow> bool" where
  "knownToken t = (t = ''nullable'' \<or> t = ''string'' \<or>
     (startsWith t ''max:'' \<and> drop 4 t \<noteq> [] \<and> list_all isDigit (drop 4 t)))"

text \<open>A rejection token fires: the token is \<open>max:N\<close> and the value is longer than \<open>N\<close>.\<close>

definition rejects :: "string \<Rightarrow> string \<Rightarrow> bool" where
  "rejects v t = (startsWith t ''max:'' \<and> drop 4 t \<noteq> [] \<and> list_all isDigit (drop 4 t)
      \<and> length v > digitsValue (drop 4 t))"

text \<open>The rules the loop reaches: for the empty value it returns at the first \<open>nullable\<close>.\<close>

definition rulesInScope :: "string \<Rightarrow> string list \<Rightarrow> string list" where
  "rulesInScope v ts = (if v = [] then takeWhile (\<lambda>t. t \<noteq> ''nullable'') ts else ts)"

definition port_variable :: variable where
  "port_variable = \<lparr>name = ''PORT'', description = None, defaultValue = ''999999'',
     currentValue = None, rules = ''string|max:4''\<rparr>"

definition memory_variable :: variable where
  "memory_variable = \<lparr>name = ''MEMORY'', description = None, defaultValue = ''512'',
     currentValue = Some ''1024'', rules = ''string|max:5''\<rparr>"

lemma isDigit_facts:
  "isDigit c \<Longrightarrow> \<not> isStrWhiteSpaceChar c \<and> c \<noteq> CHR ''-'' \<and> c \<noteq> CHR ''+''"
  by (auto simp: isDigit_def isStrWhiteSpaceChar_def)

lemma parseInt10_digits:
  assumes "ds \<noteq> []" "list_all isDigit ds"
  shows "parseInt10 ds = Some (int (digitsValue ds))"
proof -
  from assms obtain c cs where ds: "ds = c # cs" and c: "isDigit c"
    by (cases ds) auto
  from c have "\<not> isStrWhiteSpaceChar c" "c \<noteq> CHR ''-''" "c \<noteq> CHR ''+''"
    using isDigit_facts by blast+
  moreover from assms have "takeWhile isDigit ds = ds"
    by (simp add: takeWhile_eq_all_conv list_all_iff)
  ultimately show ?thesis using ds by (simp add: parseInt10_def)
qed

text \<open>What the loop computes for any rule list: only tokens that start with \<open>max:\<close> and
  from whose rest \<open>parseInt\<close> reads an integer can reject, and only while in scope.\<close>

lemma validateRules_scope:
  "validateRules v ts \<longleftrightarrow>
     (\<forall>t \<in> set (rulesInScope v ts). \<forall>m. startsWith t ''max:'' \<longrightarrow> parseInt10 (drop 4 t) = Some m
         \<longrightarrow> int (length v) \<le> m)"
  by (induction ts) (auto simp: rulesInScope_def startsWith_def split: option.splits)

lemma validateRules_filter:
  "validateRules v (filter (\<lambda>t. t = ''nullable'' \<or> t = ''string'' \<or> startsWith t ''max:'') ts)
     = validateRules v ts"
  by (induction ts) (auto simp: startsWith_def split: option.splits)

lemma validateRules_known:
  assumes "\<forall>t \<in> set ts. knownToken t"
  shows "validateRules v ts \<longleftrightarrow> (\<forall>t \<in> set ts. \<not> rejects v t)"
  using assms
proof (induction ts)
  case Nil
  then show ?case by simp
next
  case (Cons t ts)
  then have k: "knownToken t"
    and IH: "validateRules v ts \<longleftrightarrow> (\<forall>t \<in> set ts. \<not> rejects v t)" by auto
  have empty: "v = [] \<Longrightarrow> \<forall>t \<in> set ts. \<not> rejects v t" by (simp add: rejects_def)
  from k consider "t = ''nullable''" | "t = ''string''"
    | "startsWith t ''max:''" "drop 4 t \<noteq> []" "list_all isDigit (drop 4 t)"
    by (auto simp: knownToken_def)
  then show ?case
  proof cases
    case 1
    with IH empty show ?thesis by (auto simp: rejects_def startsWith_def)
  next
    case 2
    with IH show ?thesis by (auto simp: rejects_def startsWith_def)
  next
    case 3
    then have "t \<noteq> ''nullable''" "t \<noteq> ''string''" by (auto simp: startsWith_def)
    with 3 IH show ?thesis by (auto simp: rejects_def parseInt10_digits)
  qed
qed

text \<open>
  C4, as the code has it. For a rule string made only of \<open>nullable\<close>, \<open>string\<close> and
  \<open>max:N\<close>, \<open>validateVariableValue v r\<close> is true exactly when no \<open>max:N\<close> token has
  \<open>length v > N\<close> (the empty value is then valid with or without \<open>nullable\<close>, \<open>string\<close>
  constrains nothing). For any rule string, the tokens that are neither \<open>nullable\<close> nor
  \<open>string\<close> and do not start with \<open>max:\<close> can be removed without changing the result. A
  token that starts with \<open>max:\<close> is read by \<open>parseInt\<close>: it rejects when an integer \<open>m\<close>
  can be read from its rest and the value is longer than \<open>m\<close>, and is ignored only when
  no integer can be read; for the empty value the rules after the first \<open>nullable\<close> are
  not reached.
\<close>

theorem validate_rule_grammar:
  "((\<forall>t \<in> set (split_on CHR ''|'' r). knownToken t) \<longrightarrow>
      (validateVariableValue v r \<longleftrightarrow> (\<forall>t \<in> set (split_on CHR ''|'' r). \<not> rejects v t)))
   \<and> ((\<forall>t \<in> set (split_on CHR ''|'' r). knownToken t) \<longrightarrow> validateVariableValue [] r)
   \<and> validateVariableValue v r =
       validateRules v (filter (\<lambda>t. t = ''nullable'' \<or> t = ''string'' \<or> startsWith t ''max:'')
                          (split_on CHR ''|'' r))
   \<and> (validateVariableValue v r \<longleftrightarrow>
        (\<forall>t \<in> set (rulesInScope v (split_on CHR ''|'' r)). \<forall>m.
            startsWith t ''max:'' \<longrightarrow> parseInt10 (drop 4 t) = Some m \<longrightarrow> int (length v) \<le> m))"
proof -
  have e: "\<not> rejects [] t" for t by (simp add: rejects_def)
  show ?thesis
    unfolding validateVariableValue_def
    using validateRules_known [of "split_on CHR ''|'' r" v]
          validateRules_known [of "split_on CHR ''|'' r" "[]"] e
          validateRules_filter [of v "split_on CHR ''|'' r"]
          validateRules_scope [of v "split_on CHR ''|'' r"]
    by blast
qed

lemma known_example: "\<forall>t \<in> set (split_on CHR ''|'' ''nullable|string|max:5''). knownToken t"
  by (simp add: knownToken_def startsWith_def isDigit_def)

text \<open>The rule string \<open>nullable|string|max:5\<close> is in the grammar and rejects a value of six
  characters through its \<open>max:5\<close>.\<close>

theorem validate_rule_grammar_witness:
  "list_all knownToken (split_on CHR ''|'' ''nullable|string|max:5'')
   \<and> \<not> validateVariableValue ''abcdef'' ''nullable|string|max:5''
   \<and> (\<exists>t \<in> set (split_on CHR ''|'' ''nullable|string|max:5''). rejects ''abcdef'' t)
   \<and> validateVariableValue ''abcde'' ''nullable|string|max:5''"
  using validate_rule_grammar [of "''nullable|string|max:5''" "''abcdef''"]
        validate_rule_grammar [of "''nullable|string|max:5''" "''abcde''"] known_example
  by (simp add: rejects_def startsWith_def isDigit_def digitsValue_def)

text \<open>
  C4 as stated fails: \<open>max:5x\<close> is not a token of the grammar, and adding it to the rule
  string \<open>string\<close> turns the result for a value of six characters from true into false,
  because \<open>parseInt("5x", 10)\<close> is 5.
\<close>

theorem unknown_token_flips_counterexample:
  "\<not> knownToken ''max:5x''
   \<and> validateVariableValue ''abcdef'' ''string''
   \<and> \<not> validateVariableValue ''abcdef'' ''string|max:5x''"
  by (simp add: knownToken_def validateVariableValue_def startsWith_def parseInt10_def
        isStrWhiteSpaceChar_def isDigit_def digitsValue_def)

subsection \<open>Validation inside templating\<close>

text \<open>
  C9. When some variable of the list has a value (\<open>currentValue ?? defaultValue\<close>) that
  violates its rules, \<open>processVariables\<close> fails for every input string and every cargo
  list, with the error of the first such variable in list order; whether the
  variable's placeholder occurs in the input plays no part.
\<close>

theorem processVariables_first_violation:
  assumes "\<exists>var \<in> set variables. \<not> validateVariableValue (variableValue var) (rules var)"
  shows "\<exists>ok var rest. variables = ok @ var # rest
           \<and> (\<forall>u \<in> set ok. validateVariableValue (variableValue u) (rules u))
           \<and> \<not> validateVariableValue (variableValue var) (rules var)
           \<and> processVariables input variables cargo
               = Inl (VariableRuleViolation (name var) (rules var))"
  using assms
proof (induction variables arbitrary: input)
  case Nil
  then show ?case by simp
next
  case (Cons x xs)
  show ?case
  proof (cases "validateVariableValue (variableValue x) (rules x)")
    case False
    then have "processVariables input (x # xs) cargo
                 = Inl (VariableRuleViolation (name x) (rules x))"
      by (simp add: processVariables_def)
    with False show ?thesis by (intro exI [of _ "[]"] exI [of _ x] exI [of _ xs]) simp
  next
    case True
    with Cons.prems
    have "\<exists>var \<in> set xs. \<not> validateVariableValue (variableValue var) (rules var)"
      by auto
    from Cons.IH [OF this, of "replace_str input (placeholder x) (variableValue x)"]
    obtain ok var rest where r: "xs = ok @ var # rest"
        "\<forall>u \<in> set ok. validateVariableValue (variableValue u) (rules u)"
        "\<not> validateVariableValue (variableValue var) (rules var)"
        "processVariables (replace_str input (placeholder x) (variableValue x)) xs cargo
           = Inl (VariableRuleViolation (name var) (rules var))"
      by blast
    from r(4) True have "processVariables input (x # xs) cargo
           = Inl (VariableRuleViolation (name var) (rules var))"
      by (simp add: processVariables_def)
    with r True show ?thesis
      by (intro exI [of _ "x # ok"] exI [of _ var] exI [of _ rest]) simp
  qed
qed

lemma port_violates:
  "\<not> validateVariableValue (variableValue port_variable) (rules port_variable)"
  by (simp add: port_variable_def variableValue_def validateVariableValue_def startsWith_def
        parseInt10_def isStrWhiteSpaceChar_def isDigit_def digitsValue_def)

lemma memory_valid:
  "validateVariableValue (variableValue memory_variable) (rules memory_variable)"
  by (simp add: memory_variable_def variableValue_def validateVariableValue_def startsWith_def
        parseInt10_def isStrWhiteSpaceChar_def isDigit_def digitsValue_def)

text \<open>A startup command without any placeholder fails on the variable \<open>PORT\<close>, whose
  default \<open>999999\<close> breaks \<open>string|max:4\<close>; the variable before it is valid.\<close>

theorem processVariables_first_violation_witness:
  "(\<exists>var \<in> set [memory_variable, port_variable].
        \<not> validateVariableValue (variableValue var) (rules var))
   \<and> processVariables ''java -jar server.jar'' [memory_variable, port_variable] None
       = Inl (VariableRuleViolation ''PORT'' ''string|max:4'')"
proof -
  have h: "\<exists>var \<in> set [memory_variable, port_variable].
             \<not> validateVariableValue (variableValue var) (rules var)"
    using port_violates by simp
  from processVariables_first_violation [OF h, of "''java -jar server.jar''" None]
  obtain ok var rest where r: "[memory_variable, port_variable] = ok @ var # rest"
      "\<not> validateVariableValue (variableValue var) (rules var)"
      "processVariables ''java -jar server.jar'' [memory_variable, port_variable] None
           = Inl (VariableRuleViolation (name var) (rules var))"
    by blast
  from r(1) have "var = memory_variable \<or> var = port_variable"
    by (metis in_set_conv_decomp set_ConsD empty_iff list.set(1))
  with r(2) memory_valid have "var = port_variable" by auto
  with r(3) h show ?thesis by (simp add: port_variable_def)
qed

subsection \<open>Substitution of placeholders\<close>

text \<open>
  C1 says that every occurrence of a variable's placeholder is substituted. The loop
  calls \<open>result.replace(placeholder, value)\<close> with a string pattern, which replaces the
  first occurrence only: in a startup command that names \<open>%memory%\<close> twice the second
  occurrence is left as it is.
\<close>

theorem processVariables_replaces_first_only:
  "processVariables ''java -Xms%memory%M -Xmx%memory%M -jar server.jar'' [memory_variable] None
     = Inr ''java -Xms1024M -Xmx%memory%M -jar server.jar''"
  by code_simp

text \<open>The same call reads dollar patterns in the value: the value \<open>pa$$word\<close> arrives as
  \<open>pa$word\<close>.\<close>

lemma processVariables_dollar:
  "processVariables ''login %password%''
     [\<lparr>name = ''PASSWORD'', description = None, defaultValue = ''pa$$word'',
       currentValue = None, rules = ''string''\<rparr>] None = Inr ''login pa$word''"
  by code_simp

section \<open>Log ring (routers/websocket.ts)\<close>

text \<open>\<open>logBuffers = new Map<string, string[]>()\<close>, one array of formatted lines per server.\<close>

type_synonym logBuffers = "string \<rightharpoonup> string list"

definition MAX_LOGS :: nat where
  "MAX_LOGS = 100"

text \<open>
  \<open>addLogToBuffer\<close>: a missing array is created first; \<open>buffer.includes(log)\<close> looks
  through the whole array; \<open>push\<close> appends and \<open>shift\<close> removes the oldest entry.
\<close>

definition addLogToBuffer :: "string \<Rightarrow> string \<Rightarrow> logBuffers \<Rightarrow> logBuffers" where
  "addLogToBuffer internalId logLine bufs =
     (let buffer = (case bufs internalId of None \<Rightarrow> [] | Some b \<Rightarrow> b)
      in if logLine \<notin> set buffer
         then (let pushed = buffer @ [logLine]
               in bufs(internalId \<mapsto> (if length pushed > MAX_LOGS then tl pushed else pushed)))
         else bufs(internalId \<mapsto> buffer))"

text \<open>\<open>getLogsForSession\<close>: \<open>this.logBuffers.get(internalId) || []\<close>\<close>

definition getLogsForSession :: "logBuffers \<Rightarrow> string \<Rightarrow> string list" where
  "getLogsForSession bufs internalId = (case bufs internalId of None \<Rightarrow> [] | Some b \<Rightarrow> b)"

text \<open>A sequence of insertions, each into the ring of its server.\<close>

fun addLogs :: "(string \<times> string) list \<Rightarrow> logBuffers \<Rightarrow> logBuffers" where
  "addLogs [] bufs = bufs"
| "addLogs ((internalId, logLine) # rest) bufs =
     addLogs rest (addLogToBuffer internalId logLine bufs)"

definition ring_ok :: "logBuffers \<Rightarrow> bool" where
  "ring_ok bufs = (\<forall>i buf. bufs i = Some buf \<longrightarrow> length buf \<le> MAX_LOGS \<and> distinct buf)"

text \<open>A ring at capacity: one hundred lines of different lengths.\<close>

definition full_ring :: "string list" where
  "full_ring = map (\<lambda>n. replicate n CHR ''x'') [0..<100]"

lemma ring_ok_step: "ring_ok bufs \<Longrightarrow> ring_ok (addLogToBuffer i l bufs)"
  unfolding ring_ok_def addLogToBuffer_def Let_def
  by (auto simp: distinct_tl split: option.splits if_splits)

lemma ring_ok_addLogs: "ring_ok bufs \<Longrightarrow> ring_ok (addLogs ops bufs)"
  by (induction ops arbitrary: bufs) (auto simp: ring_ok_step)

lemma distinct_imp_distinct_adj: "distinct xs \<Longrightarrow> distinct_adj xs"
  by (induction xs rule: induct_list012) auto

lemma addLogToBuffer_cases:
  "addLogToBuffer i l bufs i =
     Some (if l \<in> set (getLogsForSession bufs i) then getLogsForSession bufs i
           else if length (getLogsForSession bufs i) < MAX_LOGS then getLogsForSession bufs i @ [l]
           else tl (getLogsForSession bufs i @ [l]))"
  by (auto simp: addLogToBuffer_def getLogsForSession_def Let_def split: option.splits)

lemma addLogToBuffer_other: "j \<noteq> i \<Longrightarrow> addLogToBuffer i l bufs j = bufs j"
  by (simp add: addLogToBuffer_def Let_def)

lemma full_ring_facts:
  "length full_ring = MAX_LOGS" "''[Server] Done'' \<notin> set full_ring" "full_ring \<noteq> []"
  by (auto simp: full_ring_def MAX_LOGS_def Cons_replicate_eq upt_conv_Cons)

text \<open>
  C2, as the code has it. After any sequence of insertions every ring holds at most 100
  lines and no line twice, so no two adjacent lines are equal. An insertion of a line
  that the ring already holds, at whatever position, leaves the ring as it is; a new
  line is appended, and when the ring already holds 100 lines the oldest one is removed
  (first in, first out). The rings of other servers are not touched.
\<close>

theorem log_ring_invariant:
  "(\<forall>i buf. addLogs ops Map.empty i = Some buf \<longrightarrow>
       length buf \<le> MAX_LOGS \<and> distinct buf \<and> distinct_adj buf)
   \<and> (l \<in> set (getLogsForSession bufs i) \<longrightarrow>
        addLogToBuffer i l bufs i = Some (getLogsForSession bufs i))
   \<and> (l \<notin> set (getLogsForSession bufs i) \<and> length (getLogsForSession bufs i) < MAX_LOGS \<longrightarrow>
        addLogToBuffer i l bufs i = Some (getLogsForSession bufs i @ [l]))
   \<and> (l \<notin> set (getLogsForSession bufs i) \<and> length (getLogsForSession bufs i) = MAX_LOGS \<longrightarrow>
        addLogToBuffer i l bufs i = Some (tl (getLogsForSession bufs i) @ [l]))
   \<and> (j \<noteq> i \<longrightarrow> addLogToBuffer i l bufs j = bufs j)"
proof -
  have "ring_ok (addLogs ops Map.empty)"
    by (rule ring_ok_addLogs) (simp add: ring_ok_def)
  then have inv: "\<forall>i buf. addLogs ops Map.empty i = Some buf \<longrightarrow>
       length buf \<le> MAX_LOGS \<and> distinct buf \<and> distinct_adj buf"
    by (auto simp: ring_ok_def distinct_imp_distinct_adj)
  have full: "length (getLogsForSession bufs i) = MAX_LOGS \<Longrightarrow>
      tl (getLogsForSession bufs i @ [l]) = tl (getLogsForSession bufs i) @ [l]"
    by (cases "getLogsForSession bufs i") (auto simp: MAX_LOGS_def)
  show ?thesis
    using inv full by (simp add: addLogToBuffer_cases addLogToBuffer_other)
qed

text \<open>Three insertions into an empty ring, the third equal to the first; and an insertion
  into a ring at capacity.\<close>

theorem log_ring_invariant_witness:
  "addLogs [(''s1'', ''Saving''), (''s1'', ''Saved''), (''s1'', ''Saving'')] Map.empty ''s1''
       = Some [''Saving'', ''Saved'']
   \<and> length [''Saving'', ''Saved''] \<le> MAX_LOGS \<and> distinct [''Saving'', ''Saved'']
   \<and> ''[Server] Done'' \<notin> set (getLogsForSession [''s1'' \<mapsto> full_ring] ''s1'')
   \<and> length (getLogsForSession [''s1'' \<mapsto> full_ring] ''s1'') = MAX_LOGS
   \<and> addLogToBuffer ''s1'' ''[Server] Done'' [''s1'' \<mapsto> full_ring] ''s1''
       = Some (tl full_ring @ [''[Server] Done''])
   \<and> ''s2'' \<noteq> ''s1''
   \<and> addLogToBuffer ''s1'' ''[Server] Done'' [''s1'' \<mapsto> full_ring] ''s2'' = None"
proof -
  have run: "addLogs [(''s1'', ''Saving''), (''s1'', ''Saved''), (''s1'', ''Saving'')] Map.empty ''s1''
       = Some [''Saving'', ''Saved'']"
    by (simp add: addLogToBuffer_def MAX_LOGS_def)
  have get: "getLogsForSession [''s1'' \<mapsto> full_ring] ''s1'' = full_ring"
    by (simp add: getLogsForSession_def)
  show ?thesis
    using log_ring_invariant
      [of "[(''s1'', ''Saving''), (''s1'', ''Saved''), (''s1'', ''Saving'')]"
          "''[Server] Done''" "[''s1'' \<mapsto> full_ring]" "''s1''" "''s2''"]
      run get full_ring_facts
    by (simp add: MAX_LOGS_def)
qed

text \<open>
  C2 as stated fails where it says that a line equal to an earlier, non-adjacent line is
  still appended: the third insertion repeats the first line, the second line lies
  between them, and the ring keeps two lines.
\<close>

theorem log_ring_dedup_counterexample:
  "addLogs [(''s1'', ''Saving''), (''s1'', ''Saved''), (''s1'', ''Saving'')] Map.empty ''s1''
     = Some [''Saving'', ''Saved'']
   \<and> addLogs [(''s1'', ''Saving''), (''s1'', ''Saved''), (''s1'', ''Saving'')] Map.empty ''s1''
     \<noteq> Some [''Saving'', ''Saved'', ''Saving'']"
  by (simp add: addLogToBuffer_def MAX_LOGS_def)

section \<open>Log attacher: the multiplexed stream (routers/websocket.ts)\<close>

type_synonym byte = "8 word"

text \<open>\<open>chunk.readUInt32BE(pos)\<close> for \<open>pos + 4 \<le> chunk.length\<close>, which the caller has checked.\<close>

definition readUInt32BE :: "byte list \<Rightarrow> nat \<Rightarrow> nat" where
  "readUInt32BE chunk pos =
     unat (chunk ! pos) * 2 ^ 24 + unat (chunk ! (pos + 1)) * 2 ^ 16
       + unat (chunk ! (pos + 2)) * 2 ^ 8 + unat (chunk ! (pos + 3))"

text \<open>\<open>chunk.slice(from, to)\<close> and \<open>chunk.slice(from)\<close> for indices inside the chunk.\<close>

definition sliceBuf :: "byte list \<Rightarrow> nat \<Rightarrow> nat \<Rightarrow> byte list" where
  "sliceBuf chunk from to = take (to - from) (drop from chunk)"

text \<open>The test \<open>isValidHeader\<close> of the source, for \<open>offset + 8 \<le> chunk.length\<close>.\<close>

definition isValidHeader :: "byte list \<Rightarrow> nat \<Rightarrow> bool" where
  "isValidHeader chunk offset =
     (let streamType = chunk ! offset;
          padding1 = chunk ! (offset + 1);
          padding2 = chunk ! (offset + 2);
          padding3 = chunk ! (offset + 3);
          size = readUInt32BE chunk (offset + 4)
      in streamType \<le> 2 \<and> padding1 = 0 \<and> padding2 = 0 \<and> padding3 = 0
         \<and> size > 0 \<and> int size \<le> int (length chunk) - 8
         \<and> offset + 8 + size \<le> length chunk)"

text \<open>
  The \<open>while (offset < chunk.length)\<close> loop of the \<open>data\<close> handler. \<open>toString\<close> is
  \<open>Buffer.prototype.toString('utf8')\<close>, a parameter of the model, into text over any
  type \<open>'u\<close> of code units; \<open>buffer\<close> is the reassembly buffer the loop appends to.
\<close>

function parseFrames ::
  "(byte list \<Rightarrow> 'u list) \<Rightarrow> byte list \<Rightarrow> nat \<Rightarrow> 'u list \<Rightarrow> 'u list" where
  "parseFrames toString chunk offset buffer =
     (if offset < length chunk then
        (if offset + 8 > length chunk
         then buffer @ toString (drop offset chunk)
         else if isValidHeader chunk offset
         then (let size = readUInt32BE chunk (offset + 4);
                   messageStart = offset + 8;
                   messageEnd = messageStart + size
               in parseFrames toString chunk messageEnd
                    (buffer @ toString (sliceBuf chunk messageStart messageEnd)))
         else buffer @ toString (drop offset chunk))
      else buffer)"
  by pat_completeness auto
termination
  by (relation "measure (\<lambda>(toString, chunk, offset, buffer). length chunk - offset)") auto

text \<open>What one chunk adds to an empty reassembly buffer.\<close>

definition parseChunk :: "(byte list \<Rightarrow> 'u list) \<Rightarrow> byte list \<Rightarrow> 'u list" where
  "parseChunk toString chunk = parseFrames toString chunk 0 []"

text \<open>A correctly framed record, as the engine writes it: the stream type, three zero bytes,
  the payload length as a big-endian 32-bit number, the payload.\<close>

definition be32 :: "nat \<Rightarrow> byte list" where
  "be32 n = [of_nat (n div 2 ^ 24), of_nat (n div 2 ^ 16), of_nat (n div 2 ^ 8), of_nat n]"

definition frame :: "byte \<times> byte list \<Rightarrow> byte list" where
  "frame rec = [fst rec, 0, 0, 0] @ be32 (length (snd rec)) @ snd rec"

text \<open>The first eight bytes of a chunk have the shape of a header: a stream type of at most
  2 and three zero bytes; the four length bytes can be anything.\<close>

definition headerShape :: "byte list \<Rightarrow> bool" where
  "headerShape chunk =
     (8 \<le> length chunk \<and> chunk ! 0 \<le> 2 \<and> chunk ! 1 = 0 \<and> chunk ! 2 = 0 \<and> chunk ! 3 = 0)"

text \<open>\<open>toString('utf8')\<close> on bytes below 128, where UTF-8 is one character per byte.\<close>

definition ascii_text :: "byte list \<Rightarrow> string" where
  "ascii_text bs = map (\<lambda>b. char_of (unat b)) bs"

declare parseFrames.simps [simp del]

lemma be32_value:
  assumes "n < 2 ^ 32"
  shows "(n div 2 ^ 24) mod 256 * 2 ^ 24 + (n div 2 ^ 16) mod 256 * 2 ^ 16
           + (n div 2 ^ 8) mod 256 * 2 ^ 8 + n mod 256 = (n::nat)"
proof -
  define q1 where "q1 = n div 256"
  define q2 where "q2 = q1 div 256"
  define q3 where "q3 = q2 div 256"
  have e1: "n = 256 * q1 + n mod 256" by (simp add: q1_def)
  have e2: "q1 = 256 * q2 + q1 mod 256" by (simp add: q2_def)
  have e3: "q2 = 256 * q3 + q2 mod 256" by (simp add: q3_def)
  have d2: "n div 2 ^ 16 = q2" by (simp add: q1_def q2_def div_mult2_eq)
  have d3: "n div 2 ^ 24 = q3" by (simp add: q1_def q2_def q3_def div_mult2_eq)
  from assms have "q3 < 256" unfolding d3 [symmetric] by (simp add: less_mult_imp_div_less)
  then have m3: "q3 mod 256 = q3" by simp
  have d1: "n div 2 ^ 8 = q1" by (simp add: q1_def)
  have "q3 * 2 ^ 24 + r2 * 2 ^ 16 + r1 * 2 ^ 8 + r0 = 256 * (256 * (256 * q3 + r2) + r1) + r0"
    for r0 r1 r2 :: nat
    by simp
  from this [of "q2 mod 256" "q1 mod 256" "n mod 256"] e1 e2 e3
  show ?thesis
    unfolding d1 d2 d3 m3 by simp
qed

lemma readUInt32BE_be32:
  assumes "n < 2 ^ 32" and "chunk = pre @ be32 n @ rest" and "pos = length pre"
  shows "readUInt32BE chunk pos = n"
proof -
  have b: "unat (of_nat k :: byte) = k mod 256" for k
    by (simp add: unat_of_nat)
  have "readUInt32BE chunk pos
      = (n div 2 ^ 24) mod 256 * 2 ^ 24 + (n div 2 ^ 16) mod 256 * 2 ^ 16
        + (n div 2 ^ 8) mod 256 * 2 ^ 8 + n mod 256"
    unfolding assms by (simp add: readUInt32BE_def be32_def nth_append b)
  also from assms(1) have "\<dots> = n"
    by (rule be32_value)
  finally show ?thesis .
qed

lemma length_frame: "length (frame rec) = 8 + length (snd rec)"
  by (simp add: frame_def be32_def)

lemma parseFrames_end: "parseFrames toString chunk (length chunk) buffer = buffer"
  by (subst parseFrames.simps) simp

text \<open>One well-formed record with a payload at \<open>offset\<close>: the loop takes the payload and
  goes on behind the record.\<close>

lemma parseFrames_record:
  assumes t: "fst rec \<le> 2" and p: "snd rec \<noteq> []" and n: "length (snd rec) < 2 ^ 32"
  shows "parseFrames toString (pre @ frame rec @ rest) (length pre) buffer
         = parseFrames toString (pre @ frame rec @ rest) (length (pre @ frame rec))
             (buffer @ toString (snd rec))"
proof -
  define chunk where "chunk = pre @ frame rec @ rest"
  define k where "k = length (snd rec)"
  have len: "length chunk = length pre + 8 + k + length rest"
    by (simp add: chunk_def length_frame k_def)
  have hd: "chunk ! length pre = fst rec" "chunk ! (length pre + 1) = 0"
      "chunk ! (length pre + 2) = 0" "chunk ! (length pre + 3) = 0"
    by (simp_all add: chunk_def frame_def nth_append)
  have sz: "readUInt32BE chunk (length pre + 4) = k"
  proof (rule readUInt32BE_be32)
    show "k < 2 ^ 32" using n by (simp add: k_def)
    show "chunk = (pre @ [fst rec, 0, 0, 0]) @ be32 k @ (snd rec @ rest)"
      by (simp add: chunk_def frame_def k_def)
    show "length pre + 4 = length (pre @ [fst rec, 0, 0, 0])" by simp
  qed
  from p have kpos: "0 < k" by (simp add: k_def)
  have valid: "isValidHeader chunk (length pre)"
    using t kpos hd by (simp add: isValidHeader_def Let_def sz len)
  have "chunk = (pre @ [fst rec, 0, 0, 0] @ be32 k) @ snd rec @ rest"
    by (simp add: chunk_def frame_def k_def)
  moreover have "length (pre @ [fst rec, 0, 0, 0] @ be32 k) = length pre + 8"
    by (simp add: be32_def)
  ultimately have "drop (length pre + 8) chunk = snd rec @ rest"
    by (metis append_eq_conv_conj)
  then have sl: "sliceBuf chunk (length pre + 8) (length pre + 8 + k) = snd rec"
    by (simp add: sliceBuf_def k_def)
  have "parseFrames toString chunk (length pre) buffer
        = parseFrames toString chunk (length pre + 8 + k) (buffer @ toString (snd rec))"
    by (subst parseFrames.simps) (simp add: valid sz sl len Let_def)
  then show ?thesis
    by (simp add: chunk_def length_frame k_def add.assoc)
qed

lemma parseFrames_records:
  assumes "\<forall>rec \<in> set recs. fst rec \<le> 2 \<and> snd rec \<noteq> [] \<and> length (snd rec) < 2 ^ 32"
  shows "parseFrames toString (pre @ concat (map frame recs) @ rest) (length pre) buffer
         = parseFrames toString (pre @ concat (map frame recs) @ rest)
             (length (pre @ concat (map frame recs)))
             (buffer @ concat (map (\<lambda>rec. toString (snd rec)) recs))"
  using assms
proof (induction recs arbitrary: pre buffer)
  case Nil
  then show ?case by simp
next
  case (Cons rec recs)
  then have r: "fst rec \<le> 2" "snd rec \<noteq> []" "length (snd rec) < 2 ^ 32"
    and rs: "\<forall>rec \<in> set recs. fst rec \<le> 2 \<and> snd rec \<noteq> [] \<and> length (snd rec) < 2 ^ 32"
    by auto
  have "parseFrames toString (pre @ concat (map frame (rec # recs)) @ rest) (length pre) buffer
        = parseFrames toString ((pre @ frame rec) @ concat (map frame recs) @ rest)
            (length (pre @ frame rec)) (buffer @ toString (snd rec))"
    using parseFrames_record [OF r, of toString pre "concat (map frame recs) @ rest" buffer]
    by simp
  also have "\<dots> = parseFrames toString ((pre @ frame rec) @ concat (map frame recs) @ rest)
            (length ((pre @ frame rec) @ concat (map frame recs)))
            ((buffer @ toString (snd rec)) @ concat (map (\<lambda>rec. toString (snd rec)) recs))"
    by (rule Cons.IH [OF rs])
  finally show ?case by simp
qed

text \<open>A header whose length field is zero fails the test \<open>size > 0\<close>: everything from that
  header on, the header's own bytes included, is taken as raw text.\<close>

lemma parseFrames_empty_record:
  "parseFrames toString (pre @ frame (t, []) @ rest) (length pre) buffer
     = buffer @ toString (frame (t, []) @ rest)"
proof -
  have "readUInt32BE (pre @ frame (t, []) @ rest) (length pre + 4) = 0"
  proof (rule readUInt32BE_be32)
    show "(0::nat) < 2 ^ 32" by simp
    show "pre @ frame (t, []) @ rest = (pre @ [t, 0, 0, 0]) @ be32 0 @ rest"
      by (simp add: frame_def)
    show "length pre + 4 = length (pre @ [t, 0, 0, 0])" by simp
  qed
  then have "\<not> isValidHeader (pre @ frame (t, []) @ rest) (length pre)"
    by (simp add: isValidHeader_def Let_def)
  then show ?thesis
    by (subst parseFrames.simps) (simp add: length_frame)
qed

lemma parseChunk_raw:
  assumes "\<not> headerShape chunk"
  shows "parseChunk toString chunk = (if chunk = [] then [] else toString chunk)"
proof (cases "8 \<le> length chunk")
  case True
  with assms have "\<not> isValidHeader chunk 0"
    by (auto simp: headerShape_def isValidHeader_def Let_def numeral_2_eq_2 numeral_3_eq_3)
  with True show ?thesis
    unfolding parseChunk_def by (subst parseFrames.simps) auto
next
  case False
  then show ?thesis
    unfolding parseChunk_def by (subst parseFrames.simps) auto
qed

text \<open>The loop only appends: the text already in the reassembly buffer stays in front.\<close>

lemma parseFrames_buffer:
  "parseFrames toString chunk offset buffer = buffer @ parseFrames toString chunk offset []"
proof (induction "length chunk - offset" arbitrary: offset buffer rule: less_induct)
  case less
  show ?case
  proof (cases "offset < length chunk \<and> offset + 8 \<le> length chunk \<and> isValidHeader chunk offset")
    case True
    define next_offset where "next_offset = offset + 8 + readUInt32BE chunk (offset + 4)"
    define message where "message = toString (sliceBuf chunk (offset + 8) next_offset)"
    have dec: "length chunk - next_offset < length chunk - offset"
      using True unfolding next_offset_def by arith
    have l: "parseFrames toString chunk offset b = parseFrames toString chunk next_offset (b @ message)"
      for b
      using True by (subst parseFrames.simps) (simp add: Let_def next_offset_def message_def)
    show ?thesis
      using less [OF dec, of "buffer @ message"] less [OF dec, of message] by (simp add: l)
  next
    case False
    have l: "parseFrames toString chunk offset b
               = b @ (if offset < length chunk then toString (drop offset chunk) else [])" for b
      using False by (subst parseFrames.simps) auto
    show ?thesis by (simp add: l)
  qed
qed

text \<open>
  C3, as the code has it. For a chunk that is the concatenation of correctly framed
  records whose payloads are not empty (stream type at most 2, three zero bytes, the
  payload length below \<open>2^32\<close> in big-endian order, the payload), the parser appends
  exactly the decoded payloads, in order. A record with an empty payload is not
  accepted as a frame: from its header on, the rest of the chunk is appended as raw
  text. A chunk whose first eight bytes do not have the shape of a header (fewer than
  eight bytes, a stream type above 2 or a padding byte that is not zero) is appended
  whole as raw text.
\<close>

theorem parseChunk_framing:
  "((\<forall>rec \<in> set recs. fst rec \<le> 2 \<and> snd rec \<noteq> [] \<and> length (snd rec) < 2 ^ 32) \<longrightarrow>
      parseChunk toString (concat (map frame recs)) = concat (map (\<lambda>rec. toString (snd rec)) recs))
   \<and> ((\<forall>rec \<in> set recs. fst rec \<le> 2 \<and> snd rec \<noteq> [] \<and> length (snd rec) < 2 ^ 32) \<longrightarrow>
      parseChunk toString (concat (map frame recs) @ frame (t, []) @ rest)
        = concat (map (\<lambda>rec. toString (snd rec)) recs) @ toString (frame (t, []) @ rest))
   \<and> (\<not> headerShape chunk \<longrightarrow>
      parseChunk toString chunk = (if chunk = [] then [] else toString chunk))"
proof (intro conjI impI)
  assume a: "\<forall>rec \<in> set recs. fst rec \<le> 2 \<and> snd rec \<noteq> [] \<and> length (snd rec) < 2 ^ 32"
  from parseFrames_records [OF a, of toString "[]" "[]" "[]"]
  show "parseChunk toString (concat (map frame recs))
          = concat (map (\<lambda>rec. toString (snd rec)) recs)"
    using parseFrames_end [of toString "concat (map frame recs)"]
    by (simp add: parseChunk_def)
next
  assume a: "\<forall>rec \<in> set recs. fst rec \<le> 2 \<and> snd rec \<noteq> [] \<and> length (snd rec) < 2 ^ 32"
  from parseFrames_records [OF a, of toString "[]" "frame (t, []) @ rest" "[]"]
  show "parseChunk toString (concat (map frame recs) @ frame (t, []) @ rest)
        = concat (map (\<lambda>rec. toString (snd rec)) recs) @ toString (frame (t, []) @ rest)"
    using parseFrames_empty_record [of toString "concat (map frame recs)" t rest]
    by (simp add: parseChunk_def)
next
  assume "\<not> headerShape chunk"
  then show "parseChunk toString chunk = (if chunk = [] then [] else toString chunk)"
    by (rule parseChunk_raw)
qed

text \<open>Two records, \<open>hi\<close> on stdout and \<open>!\<close> on stderr; the same followed by a record
  without payload; and three raw bytes, too few for a header.\<close>

lemma ascii_text_hi: "ascii_text [0x68, 0x69, 0x21] = ''hi!''"
  by code_simp

theorem parseChunk_framing_witness:
  "list_all (\<lambda>rec. fst rec \<le> 2 \<and> snd rec \<noteq> [] \<and> length (snd rec) < 2 ^ 32)
      [(1 :: byte, [0x68, 0x69 :: byte]), (2, [0x21])]
   \<and> parseChunk ascii_text (concat (map frame [(1, [0x68, 0x69]), (2, [0x21])])) = ''hi!''
   \<and> parseChunk ascii_text (concat (map frame [(1, [0x68, 0x69]), (2, [0x21])]) @ frame (1, []) @ [])
       = ''hi!'' @ ascii_text [1, 0, 0, 0, 0, 0, 0, 0]
   \<and> \<not> headerShape [0x68, 0x69, 0x0A]
   \<and> parseChunk ascii_text [0x68, 0x69, 0x0A] = ascii_text [0x68, 0x69, 0x0A]"
proof -
  have h: "\<forall>rec \<in> set [(1 :: byte, [0x68, 0x69 :: byte]), (2, [0x21])].
             fst rec \<le> 2 \<and> snd rec \<noteq> [] \<and> length (snd rec) < 2 ^ 32"
    by simp
  have n: "\<not> headerShape [0x68, 0x69, 0x0A]"
    by (simp add: headerShape_def)
  have f: "frame (1, []) = [1, 0, 0, 0, 0, 0, 0, 0]"
    by (simp add: frame_def be32_def)
  have c: "concat (map (\<lambda>rec. ascii_text (snd rec)) [(1 :: byte, [0x68, 0x69 :: byte]), (2, [0x21])])
             = ''hi!''"
    using ascii_text_hi by (simp add: ascii_text_def)
  from parseChunk_framing [of "[(1, [0x68, 0x69]), (2, [0x21])]" ascii_text 1 "[]"
          "[0x68, 0x69, 0x0A]"] h n
  have "parseChunk ascii_text (concat (map frame [(1, [0x68, 0x69]), (2, [0x21])]))
          = concat (map (\<lambda>rec. ascii_text (snd rec)) [(1 :: byte, [0x68, 0x69 :: byte]), (2, [0x21])])"
    and "parseChunk ascii_text (concat (map frame [(1, [0x68, 0x69]), (2, [0x21])]) @ frame (1, []) @ [])
          = concat (map (\<lambda>rec. ascii_text (snd rec)) [(1 :: byte, [0x68, 0x69 :: byte]), (2, [0x21])])
              @ ascii_text (frame (1, []) @ [])"
    and "parseChunk ascii_text [0x68, 0x69, 0x0A] = ascii_text [0x68, 0x69, 0x0A]"
    by simp_all
  with h n show ?thesis unfolding c f by simp
qed

text \<open>
  C3 as stated fails for a correctly framed record with an empty payload: for the chunk
  made of such a record and the record of the payload \<open>a\<close>, the parser appends all 17
  bytes as raw text, the two headers included, and not the text \<open>a\<close>.
\<close>

theorem parseChunk_empty_payload_counterexample:
  "parseChunk ascii_text (concat (map frame [(1, []), (1, [0x61])]))
     = ascii_text [1, 0, 0, 0, 0, 0, 0, 0, 1, 0, 0, 0, 0, 0, 0, 1, 0x61]
   \<and> parseChunk ascii_text (concat (map frame [(1, []), (1, [0x61])]))
     \<noteq> concat (map (\<lambda>rec. ascii_text (snd rec)) [(1, []), (1, [0x61])])"
proof -
  have "parseChunk ascii_text (concat (map frame [(1, []), (1, [0x61])]))
     = ascii_text [1, 0, 0, 0, 0, 0, 0, 0, 1, 0, 0, 0, 0, 0, 0, 1, 0x61]"
    unfolding parseChunk_def
    by (subst parseFrames.simps)
       (simp add: frame_def be32_def isValidHeader_def readUInt32BE_def)
  then show ?thesis by (simp add: ascii_text_def)
qed

section \<open>Resource statistics (routers/websocket.ts)\<close>

text \<open>
  \<open>ContainerStatsResponse\<close>. The fields are JavaScript numbers; the model takes them as
  real numbers, so the quotient and the products are exact where the source rounds to a
  double. The comparisons with 0 and the cap \<open>Math.min(_, 100)\<close> are the same in both.
\<close>

record memory_stats =
  usage :: real
  limit :: real

record cpu_usage =
  total_usage :: real

record cpu_stats =
  cpu_usage :: cpu_usage
  system_cpu_usage :: real
  online_cpus :: real

record precpu_stats =
  precpu_usage :: cpu_usage
  presystem_cpu_usage :: real

record eth0_stats =
  rx_bytes :: real
  tx_bytes :: real

record containerStatsResponse =
  memory_stats :: memory_stats
  cpu_stats :: cpu_stats
  precpu_stats :: precpu_stats
  networks_eth0 :: "eth0_stats option"

definition cpuDelta :: "containerStatsResponse \<Rightarrow> real" where
  "cpuDelta stats =
     total_usage (cpu_usage (cpu_stats stats)) - total_usage (precpu_usage (precpu_stats stats))"

definition systemDelta :: "containerStatsResponse \<Rightarrow> real" where
  "systemDelta stats =
     system_cpu_usage (cpu_stats stats) - presystem_cpu_usage (precpu_stats stats)"

definition calculateCPUPercent :: "containerStatsResponse \<Rightarrow> real" where
  "calculateCPUPercent stats =
     (let cpuCount = online_cpus (cpu_stats stats)
      in if systemDelta stats > 0 \<and> cpuDelta stats > 0
         then min ((cpuDelta stats / systemDelta stats) * cpuCount * 100) 100
         else 0)"

text \<open>A sample taken after the usage counter went back (a container that restarted between
  the two readings): usage 0.5 s after 1 s, system time 2 s after 1 s, two CPUs.\<close>

definition restarted_sample :: containerStatsResponse where
  "restarted_sample =
     \<lparr>memory_stats = \<lparr>usage = 1048576, limit = 1073741824\<rparr>,
      cpu_stats = \<lparr>cpu_usage = \<lparr>total_usage = 500000000\<rparr>,
                   system_cpu_usage = 2000000000, online_cpus = 2\<rparr>,
      precpu_stats = \<lparr>precpu_usage = \<lparr>total_usage = 1000000000\<rparr>,
                      presystem_cpu_usage = 1000000000\<rparr>,
      networks_eth0 = None\<rparr>"

text \<open>A busy sample: 0.9 s of CPU time in 1 s of system time on two CPUs.\<close>

definition busy_sample :: containerStatsResponse where
  "busy_sample =
     \<lparr>memory_stats = \<lparr>usage = 1048576, limit = 1073741824\<rparr>,
      cpu_stats = \<lparr>cpu_usage = \<lparr>total_usage = 1900000000\<rparr>,
                   system_cpu_usage = 2000000000, online_cpus = 2\<rparr>,
      precpu_stats = \<lparr>precpu_usage = \<lparr>total_usage = 1000000000\<rparr>,
                      presystem_cpu_usage = 1000000000\<rparr>,
      networks_eth0 = None\<rparr>"

text \<open>
  C8, as the code has it. When both deltas between \<open>cpu_stats\<close> and \<open>precpu_stats\<close> are
  positive, the reported value is \<open>min((\<Delta>total / \<Delta>system) * online_cpus * 100, 100)\<close>;
  when either delta is zero or negative the reported value is 0, whatever the formula
  would give. In every case the value is at most 100.
\<close>

theorem calculateCPUPercent_capped:
  "(systemDelta stats > 0 \<and> cpuDelta stats > 0 \<longrightarrow>
      calculateCPUPercent stats
        = min ((cpuDelta stats / systemDelta stats) * online_cpus (cpu_stats stats) * 100) 100)
   \<and> (\<not> (systemDelta stats > 0 \<and> cpuDelta stats > 0) \<longrightarrow> calculateCPUPercent stats = 0)
   \<and> calculateCPUPercent stats \<le> 100"
  by (simp add: calculateCPUPercent_def Let_def)

theorem calculateCPUPercent_capped_witness:
  "systemDelta busy_sample > 0 \<and> cpuDelta busy_sample > 0
   \<and> calculateCPUPercent busy_sample = 100
   \<and> \<not> (systemDelta restarted_sample > 0 \<and> cpuDelta restarted_sample > 0)
   \<and> calculateCPUPercent restarted_sample = 0"
  using calculateCPUPercent_capped [of busy_sample] calculateCPUPercent_capped [of restarted_sample]
  by (simp add: busy_sample_def restarted_sample_def systemDelta_def cpuDelta_def)

text \<open>
  C8 as stated fails for a sample whose usage delta is negative: the formula gives
  \<open>min(-100, 100) = -100\<close>, the code reports 0.
\<close>

theorem calculateCPUPercent_guard_counterexample:
  "calculateCPUPercent restarted_sample = 0
   \<and> min ((cpuDelta restarted_sample / systemDelta restarted_sample)
            * online_cpus (cpu_stats restarted_sample) * 100) 100 = - 100"
  by (simp add: calculateCPUPercent_def restarted_sample_def systemDelta_def cpuDelta_def)

section \<open>Panel client (routers/servers.ts)\<close>

text \<open>
  What the panel does with one GET: it answers with a status and a body, it answers with
  a 3xx status and a \<open>Location\<close> header, which \<open>axios\<close> follows to a further reply, or the
  request fails in transport (refused, reset, the 10 s timeout). A 3xx status without
  \<open>Location\<close> is an \<open>Answer\<close>.
\<close>

datatype panel_reply = Answer nat string | Redirected panel_reply | TransportFailure string

text \<open>What \<open>axios\<close> throws: with the default \<open>validateStatus\<close> a status outside 200..299
  rejects the promise, as a transport failure does.\<close>

datatype axios_error = StatusRejected nat | TransportError string

text \<open>What \<open>fetchServerConfig\<close> does, in order: the GET of an attempt, the
  \<open>console.error\<close> of the \<open>catch\<close> block, the \<open>setTimeout\<close> wait in milliseconds.\<close>

datatype fetch_effect = Get nat | LogFailed nat | Wait nat

text \<open>\<open>Failed to fetch server configuration after 3 attempts\<close>, with \<open>lastError\<close>.\<close>

datatype fetch_error = FetchFailed nat "axios_error option"

definition maxRetries :: nat where
  "maxRetries = 3"

text \<open>Following redirections, at most \<open>n\<close> more of them; one more than allowed is an error
  of the request.\<close>

fun followRedirects :: "nat \<Rightarrow> panel_reply \<Rightarrow> axios_error + (nat \<times> string)" where
  "followRedirects n (Answer status body) =
     (if 200 \<le> status \<and> status < 300 then Inr (status, body) else Inl (StatusRejected status))"
| "followRedirects n (TransportFailure msg) = Inl (TransportError msg)"
| "followRedirects 0 (Redirected reply) = Inl (TransportError ''Maximum number of redirects exceeded'')"
| "followRedirects (Suc n) (Redirected reply) = followRedirects n reply"

text \<open>\<open>await axios.get(url, { timeout: 10000 })\<close>: the response, or the error thrown. The
  default \<open>maxRedirects\<close> is 5.\<close>

definition axios_get :: "panel_reply \<Rightarrow> axios_error + (nat \<times> string)" where
  "axios_get reply = followRedirects 5 reply"

text \<open>
  The \<open>for (let attempt = 1; attempt <= maxRetries; attempt++)\<close> loop; \<open>panel k\<close> is the
  panel's reply to the GET of attempt \<open>k\<close>. A response that is not thrown and whose
  status is not 200 leaves the \<open>try\<close> block without entering \<open>catch\<close>.
\<close>

function fetchLoop ::
  "(nat \<Rightarrow> panel_reply) \<Rightarrow> nat \<Rightarrow> axios_error option \<Rightarrow> fetch_effect list
     \<Rightarrow> fetch_effect list \<times> (fetch_error + string)" where
  "fetchLoop panel attempt lastError trace =
     (if attempt \<le> maxRetries then
        (case axios_get (panel attempt) of
           Inr (status, body) \<Rightarrow>
             if status = 200 then (trace @ [Get attempt], Inr body)
             else fetchLoop panel (attempt + 1) lastError (trace @ [Get attempt])
         | Inl err \<Rightarrow>
             fetchLoop panel (attempt + 1) (Some err)
               (trace @ [Get attempt, LogFailed attempt]
                  @ (if attempt < maxRetries then [Wait (1000 * attempt)] else [])))
      else (trace, Inl (FetchFailed maxRetries lastError)))"
  by pat_completeness auto
termination
  by (relation "measure (\<lambda>(panel, attempt, lastError, trace). Suc maxRetries - attempt)") auto

definition fetchServerConfig ::
  "(nat \<Rightarrow> panel_reply) \<Rightarrow> fetch_effect list \<times> (fetch_error + string)" where
  "fetchServerConfig panel = fetchLoop panel 1 None []"

declare fetchLoop.simps [simp del]

text \<open>The attempt numbers of the GETs of a run, in order.\<close>

definition gets :: "fetch_effect list \<Rightarrow> nat list" where
  "gets trace = concat (map (\<lambda>e. case e of Get k \<Rightarrow> [k] | _ \<Rightarrow> []) trace)"

definition isGet :: "fetch_effect \<Rightarrow> bool" where
  "isGet e = (case e of Get k \<Rightarrow> True | _ \<Rightarrow> False)"

text \<open>What a run does after the GET of attempt \<open>k\<close> and before its next GET (or its end).\<close>

definition effectsAfter :: "nat \<Rightarrow> fetch_effect list \<Rightarrow> fetch_effect list" where
  "effectsAfter k trace =
     takeWhile (\<lambda>e. \<not> isGet e) (drop 1 (dropWhile (\<lambda>e. e \<noteq> Get k) trace))"

text \<open>The panel answers 503 to the first GET and sends the configuration to the second; the
  panel cannot be reached; the panel answers the first GET with 204 and the second with
  the configuration; the panel redirects the first GET once to the configuration.\<close>

definition panel_503_then_200 :: "nat \<Rightarrow> panel_reply" where
  "panel_503_then_200 k = (if k = 1 then Answer 503 [] else Answer 200 ''{}'')"

definition panel_down :: "nat \<Rightarrow> panel_reply" where
  "panel_down k = TransportFailure ''connect ECONNREFUSED''"

definition panel_204_then_200 :: "nat \<Rightarrow> panel_reply" where
  "panel_204_then_200 k = (if k = 1 then Answer 204 [] else Answer 200 ''{}'')"

definition panel_redirects :: "nat \<Rightarrow> panel_reply" where
  "panel_redirects k = Redirected (Answer 200 ''{}'')"

lemma fetchLoop_unfold_1:
  "fetchLoop panel (Suc 0) lastError trace =
     (case axios_get (panel 1) of
        Inr (status, body) \<Rightarrow>
          if status = 200 then (trace @ [Get 1], Inr body)
          else fetchLoop panel 2 lastError (trace @ [Get 1])
      | Inl err \<Rightarrow> fetchLoop panel 2 (Some err) (trace @ [Get 1, LogFailed 1, Wait 1000]))"
  by (subst fetchLoop.simps) (simp add: maxRetries_def numeral_2_eq_2 split: sum.splits)

lemma fetchLoop_unfold_2:
  "fetchLoop panel 2 lastError trace =
     (case axios_get (panel 2) of
        Inr (status, body) \<Rightarrow>
          if status = 200 then (trace @ [Get 2], Inr body)
          else fetchLoop panel 3 lastError (trace @ [Get 2])
      | Inl err \<Rightarrow> fetchLoop panel 3 (Some err) (trace @ [Get 2, LogFailed 2, Wait 2000]))"
  by (subst fetchLoop.simps) (simp add: maxRetries_def split: sum.splits)

lemma fetchLoop_unfold_3:
  "fetchLoop panel 3 lastError trace =
     (case axios_get (panel 3) of
        Inr (status, body) \<Rightarrow>
          if status = 200 then (trace @ [Get 3], Inr body)
          else (trace @ [Get 3], Inl (FetchFailed 3 lastError))
      | Inl err \<Rightarrow> (trace @ [Get 3, LogFailed 3], Inl (FetchFailed 3 (Some err))))"
  by (subst fetchLoop.simps, subst fetchLoop.simps, subst fetchLoop.simps)
     (simp add: maxRetries_def split: sum.splits)

lemmas fetchLoop_unfold = fetchLoop_unfold_1 fetchLoop_unfold_2 fetchLoop_unfold_3

lemma fetch_at_most_three:
  "gets (fst (fetchServerConfig panel)) \<in> {[1], [1, 2], [1, 2, 3]}"
  by (simp add: fetchServerConfig_def fetchLoop_unfold gets_def split: sum.splits)

lemma fetch_200_returns:
  "axios_get (panel 1) = Inr (200, body) \<Longrightarrow> fetchServerConfig panel = ([Get 1], Inr body)"
  by (simp add: fetchServerConfig_def fetchLoop_unfold)

lemma fetch_rejected_backoff:
  assumes "axios_get (panel 1) = Inl e1" "axios_get (panel 2) = Inl e2" "axios_get (panel 3) = Inl e3"
  shows "fetchServerConfig panel =
           ([Get 1, LogFailed 1, Wait 1000, Get 2, LogFailed 2, Wait 2000, Get 3, LogFailed 3],
            Inl (FetchFailed 3 (Some e3)))"
  using assms by (simp add: fetchServerConfig_def fetchLoop_unfold)

lemma fetch_backoff_first:
  assumes "fetchServerConfig panel = (trace, result)" "isl (axios_get (panel 1))"
  shows "effectsAfter 1 trace = [LogFailed 1, Wait 1000] \<and> 2 \<in> set (gets trace)"
  using assms
  by (auto simp: fetchServerConfig_def fetchLoop_unfold gets_def effectsAfter_def isGet_def isl_def
           split: sum.splits if_splits)

lemma fetch_backoff_second:
  assumes "fetchServerConfig panel = (trace, result)" "2 \<in> set (gets trace)"
    "isl (axios_get (panel 2))"
  shows "effectsAfter 2 trace = [LogFailed 2, Wait 2000] \<and> 3 \<in> set (gets trace)"
  using assms
  by (auto simp: fetchServerConfig_def fetchLoop_unfold gets_def effectsAfter_def isGet_def isl_def
           split: sum.splits if_splits)

lemma fetch_no_wait_after_last:
  assumes "fetchServerConfig panel = (trace, result)" "3 \<in> set (gets trace)"
    "isl (axios_get (panel 3))"
  shows "effectsAfter 3 trace = [LogFailed 3]"
  using assms
  by (auto simp: fetchServerConfig_def fetchLoop_unfold gets_def effectsAfter_def isGet_def isl_def
           split: sum.splits if_splits)

lemma fetch_200_ends:
  assumes "fetchServerConfig panel = (trace, result)" "k \<in> set (gets trace)"
    "axios_get (panel k) = Inr (200, body)"
  shows "result = Inr body \<and> last trace = Get k"
proof -
  from assms(1) fetch_at_most_three [of panel] have "set (gets trace) \<subseteq> {1, 2, 3}" by auto
  with assms(2) consider "k = 1" | "k = 2" | "k = 3" by auto
  then show ?thesis
    using assms
    by cases
       (auto simp: fetchServerConfig_def fetchLoop_unfold gets_def split: sum.splits if_splits)
qed

lemma fetch_exhausted:
  assumes "fetchServerConfig panel = (trace, result)"
  shows "((\<forall>k \<in> {1, 2, 3}. \<forall>body. axios_get (panel k) \<noteq> Inr (200, body)) \<longrightarrow>
            gets trace = [1, 2, 3] \<and> (\<exists>e. result = Inl (FetchFailed 3 e)))
       \<and> (\<forall>err. result = Inl err \<longrightarrow> gets trace = [1, 2, 3])"
  using assms
  by (auto simp: fetchServerConfig_def fetchLoop_unfold gets_def split: sum.splits if_splits)

text \<open>
  C7. A failed attempt is one whose GET \<open>axios\<close> rejects: a transport failure or a status
  outside 200..299. Every run of \<open>fetchServerConfig\<close> makes the GETs of attempts 1, 1 and
  2, or 1, 2 and 3, and no others. After a failed attempt 1 or 2 the run logs the
  failure, waits 1000 ms times the attempt number and then makes the next attempt;
  after a failed attempt 3 it logs and does not wait. An attempt answered with status
  200 ends the run with the body of the answer, its GET being the last thing done. When
  no attempt is answered with 200 all three attempts are made and the result is the
  error; an error is never the result before the third attempt has been made.
\<close>

theorem fetchServerConfig_retries:
  assumes "fetchServerConfig panel = (trace, result)"
  shows "gets trace \<in> {[1], [1, 2], [1, 2, 3]}
       \<and> (\<forall>k \<in> {1, 2}. k \<in> set (gets trace) \<and> isl (axios_get (panel k)) \<longrightarrow>
             effectsAfter k trace = [LogFailed k, Wait (1000 * k)] \<and> Suc k \<in> set (gets trace))
       \<and> (3 \<in> set (gets trace) \<and> isl (axios_get (panel 3)) \<longrightarrow>
             effectsAfter 3 trace = [LogFailed 3])
       \<and> (\<forall>k body. k \<in> set (gets trace) \<and> axios_get (panel k) = Inr (200, body) \<longrightarrow>
             result = Inr body \<and> last trace = Get k)
       \<and> ((\<forall>k \<in> {1, 2, 3}. \<forall>body. axios_get (panel k) \<noteq> Inr (200, body)) \<longrightarrow>
             gets trace = [1, 2, 3] \<and> (\<exists>e. result = Inl (FetchFailed 3 e)))
       \<and> (\<forall>err. result = Inl err \<longrightarrow> gets trace = [1, 2, 3])"
proof -
  have a: "gets trace \<in> {[1], [1, 2], [1, 2, 3]}"
    using fetch_at_most_three [of panel] assms by simp
  have b: "\<forall>k \<in> {1, 2}. k \<in> set (gets trace) \<and> isl (axios_get (panel k)) \<longrightarrow>
             effectsAfter k trace = [LogFailed k, Wait (1000 * k)] \<and> Suc k \<in> set (gets trace)"
    using fetch_backoff_first [OF assms] fetch_backoff_second [OF assms]
    by (simp add: numeral_3_eq_3 numeral_2_eq_2)
  have c: "3 \<in> set (gets trace) \<and> isl (axios_get (panel 3)) \<longrightarrow>
             effectsAfter 3 trace = [LogFailed 3]"
    using fetch_no_wait_after_last [OF assms] by simp
  have d: "\<forall>k body. k \<in> set (gets trace) \<and> axios_get (panel k) = Inr (200, body) \<longrightarrow>
             result = Inr body \<and> last trace = Get k"
    using fetch_200_ends [OF assms] by blast
  from a b c d fetch_exhausted [OF assms] show ?thesis by blast
qed

lemma panel_503_run:
  "fetchServerConfig panel_503_then_200 = ([Get 1, LogFailed 1, Wait 1000, Get 2], Inr ''{}'')"
  by (simp add: fetchServerConfig_def fetchLoop_unfold axios_get_def panel_503_then_200_def)

lemma panel_down_run:
  "fetchServerConfig panel_down =
     ([Get 1, LogFailed 1, Wait 1000, Get 2, LogFailed 2, Wait 2000, Get 3, LogFailed 3],
      Inl (FetchFailed 3 (Some (TransportError ''connect ECONNREFUSED''))))"
  by (simp add: fetchServerConfig_def fetchLoop_unfold axios_get_def panel_down_def)

text \<open>A panel that answers 503 and then 200: one wait of 1000 ms between the two GETs, and
  the body is returned. A panel that cannot be reached: waits of 1000 ms and 2000 ms,
  none after the third attempt, and the error.\<close>

theorem fetchServerConfig_retries_witness:
  "fetchServerConfig panel_503_then_200 = ([Get 1, LogFailed 1, Wait 1000, Get 2], Inr ''{}'')
   \<and> isl (axios_get (panel_503_then_200 1))
   \<and> effectsAfter 1 [Get 1, LogFailed 1, Wait 1000, Get 2] = [LogFailed 1, Wait 1000]
   \<and> axios_get (panel_503_then_200 2) = Inr (200, ''{}'')
   \<and> last [Get 1, LogFailed 1, Wait 1000, Get 2] = Get 2
   \<and> isl (axios_get (panel_down 1)) \<and> isl (axios_get (panel_down 2)) \<and> isl (axios_get (panel_down 3))
   \<and> effectsAfter 2 (fst (fetchServerConfig panel_down)) = [LogFailed 2, Wait 2000]
   \<and> effectsAfter 3 (fst (fetchServerConfig panel_down)) = [LogFailed 3]
   \<and> gets (fst (fetchServerConfig panel_down)) = [1, 2, 3]
   \<and> snd (fetchServerConfig panel_down)
        = Inl (FetchFailed 3 (Some (TransportError ''connect ECONNREFUSED'')))"
proof -
  have g: "gets [Get 1, LogFailed 1, Wait 1000, Get 2] = [1, 2]"
    "gets [Get 1, LogFailed 1, Wait 1000, Get 2, LogFailed 2, Wait 2000, Get 3, LogFailed 3]
       = [1, 2, 3]"
    by (simp_all add: gets_def)
  have r: "isl (axios_get (panel_503_then_200 1))"
    "axios_get (panel_503_then_200 2) = Inr (200, ''{}'')"
    "isl (axios_get (panel_down 1))" "isl (axios_get (panel_down 2))"
    "isl (axios_get (panel_down 3))"
    by (simp_all add: axios_get_def panel_503_then_200_def panel_down_def)
  from fetchServerConfig_retries [OF panel_503_run] fetchServerConfig_retries [OF panel_down_run]
    g r panel_503_run panel_down_run
  show ?thesis by simp
qed

text \<open>
  An attempt that the panel answers with a 2xx status other than 200 is not rejected by
  \<open>axios\<close>: nothing is returned and the \<open>catch\<close> block, where the wait sits, is not
  entered, so the next GET follows at once. A redirection is followed inside the one GET.
\<close>

lemma fetch_204_retried_at_once:
  "fetchServerConfig panel_204_then_200 = ([Get 1, Get 2], Inr ''{}'')"
  by (simp add: fetchServerConfig_def fetchLoop_unfold axios_get_def panel_204_then_200_def)

lemma fetch_redirect_followed:
  "fetchServerConfig panel_redirects = ([Get 1], Inr ''{}'')"
  by (simp add: fetchServerConfig_def fetchLoop_unfold axios_get_def panel_redirects_def
        eval_nat_numeral)

section \<open>Power actions of a session (routers/websocket.ts)\<close>

text \<open>
  The container engine is a parameter: \<open>'c\<close> is whatever state the container has, and each
  call of the session's container either throws (an error message) or goes through, in
  both cases leaving a container state. \<open>inspect\<close> gives \<open>State.Status\<close> and
  \<open>State.Error\<close>. The argument of \<open>stop\<close> and \<open>restart\<close> is the option \<open>t\<close>, the seconds
  of grace; \<open>kill\<close> has no such option.
\<close>

record 'c engine =
  container_inspect :: "'c \<Rightarrow> string + (string \<times> string)"
  container_start :: "'c \<Rightarrow> string option \<times> 'c"
  container_stop :: "nat option \<Rightarrow> 'c \<Rightarrow> string option \<times> 'c"
  container_kill :: "'c \<Rightarrow> string option \<times> 'c"
  container_restart :: "nat option \<Rightarrow> 'c \<Rightarrow> string option \<times> 'c"

datatype container_call = Inspect | Start | Stop "nat option" | Kill | Restart "nat option" | FollowLogs

datatype logType = INFO | SUCCESS | ERROR | WARNING | DAEMON

text \<open>
  What \<open>handlePowerAction\<close> does besides its control flow, recorded in order and not
  expanded: calls of the container, calls of \<open>broadcastToServer\<close>, the deletion of the
  server's log ring, and the two frames it sends (\<open>power_status\<close> with status text,
  action, state and error; \<open>error\<close> with a message).
\<close>

datatype power_effect =
    Call container_call
  | Broadcast logType string
  | ClearLogBuffer
  | SendPowerStatus string string string string
  | SendError string

text \<open>\<open>chalk.yellow\<close> with colours on.\<close>

definition yellow :: "string \<Rightarrow> string" where
  "yellow s = CHR 0x1B # ''[33m'' @ s @ CHR 0x1B # ''[39m''"

text \<open>The test on the state transition, as the source writes it.\<close>

definition alreadyInState :: "string \<Rightarrow> string \<Rightarrow> bool" where
  "alreadyInState action currentState =
     ((action = ''start'' \<and> currentState = ''running'')
      \<or> ((action = ''stop'' \<or> action = ''kill'') \<and> currentState = ''stopped'')
      \<or> (action = ''restart'' \<and> currentState = ''restarting''))"

text \<open>The \<open>switch (action)\<close>: the container state left, the calls made, and the error thrown
  if one was. \<open>attachLogs\<close> catches its own errors; its call of \<open>container.logs\<close> is recorded.\<close>

definition performAction ::
  "'c engine \<Rightarrow> string \<Rightarrow> 'c \<Rightarrow> string option \<times> 'c \<times> container_call list" where
  "performAction eng action c =
     (if action = ''start'' then
        (case container_start eng c of
           (Some e, c') \<Rightarrow> (Some e, c', [Start])
         | (None, c') \<Rightarrow> (None, c', [Start, FollowLogs]))
      else if action = ''stop'' then
        (case container_stop eng (Some 30) c of (r, c') \<Rightarrow> (r, c', [Stop (Some 30)]))
      else if action = ''kill'' then
        (case container_kill eng c of (r, c') \<Rightarrow> (r, c', [Kill]))
      else if action = ''restart'' then
        (case container_restart eng (Some 30) c of
           (Some e, c') \<Rightarrow> (Some e, c', [Restart (Some 30)])
         | (None, c') \<Rightarrow> (None, c', [Restart (Some 30), FollowLogs]))
      else (None, c, []))"

text \<open>The \<open>catch\<close> block: the failure is broadcast and sent as an \<open>error\<close> frame.\<close>

definition powerFailed :: "string \<Rightarrow> string \<Rightarrow> power_effect list" where
  "powerFailed action errorMsg =
     [Broadcast ERROR (''Failed to '' @ action @ '' server: '' @ errorMsg), SendError errorMsg]"

definition statusMessage :: "string \<Rightarrow> string \<Rightarrow> string" where
  "statusMessage action state =
     (if state = ''running''
      then yellow ''[Krypton Daemon]''
             @ '' The server is now powered on and will begin the pre-boot process.''
      else if action = ''kill''
      then yellow ''[Krypton Daemon]'' @ '' The server has been forcefully terminated.''
      else yellow ''[Krypton Daemon]'' @ '' The server has successfully been powered off.'')"

text \<open>
  \<open>handlePowerAction\<close>. The result is \<open>Inl\<close> for the one error thrown to the caller (an
  action outside the four names, before anything is done) and \<open>Inr\<close> otherwise, with the
  container state left and the effects in order.
\<close>

definition handlePowerAction ::
  "'c engine \<Rightarrow> 'c \<Rightarrow> string \<Rightarrow> (string + unit) \<times> 'c \<times> power_effect list" where
  "handlePowerAction eng c action =
     (if action \<notin> set [''start'', ''stop'', ''restart'', ''kill'']
      then (Inl ''Invalid power action'', c, [])
      else
        (let announced =
               [Broadcast DAEMON (''Performing a '' @ action @ '' action on server...''),
                Call Inspect]
         in case container_inspect eng c of
              Inl e \<Rightarrow> (Inr (), c, announced @ powerFailed action e)
            | Inr (status, _) \<Rightarrow>
                (let currentState = replace_str status ''exited'' ''stopped''
                 in if alreadyInState action currentState
                    then (Inr (), c,
                          announced
                            @ powerFailed action (''Server is already in '' @ currentState @ '' state''))
                    else
                      (case performAction eng action c of
                         (Some e, c', calls) \<Rightarrow>
                           (Inr (), c', announced @ map Call calls @ powerFailed action e)
                       | (None, c', calls) \<Rightarrow>
                           (let done = announced @ map Call calls @ [ClearLogBuffer, Call Inspect]
                            in case container_inspect eng c' of
                                 Inl e \<Rightarrow> (Inr (), c', done @ powerFailed action e)
                               | Inr (state, err) \<Rightarrow>
                                   (Inr (), c',
                                    done @ [SendPowerStatus (statusMessage action state) action
                                              (replace_str state ''exited'' ''stopped'') err]))))))"

text \<open>The calls of the container among the effects.\<close>

definition containerCalls :: "power_effect list \<Rightarrow> container_call list" where
  "containerCalls effects = concat (map (\<lambda>e. case e of Call k \<Rightarrow> [k] | _ \<Rightarrow> []) effects)"

text \<open>A container that is just its status; every call goes through.\<close>

definition simple_engine :: "string engine" where
  "simple_engine =
     \<lparr>container_inspect = (\<lambda>c. Inr (c, [])),
      container_start = (\<lambda>c. (None, ''running'')),
      container_stop = (\<lambda>t c. (None, ''exited'')),
      container_kill = (\<lambda>c. (None, ''exited'')),
      container_restart = (\<lambda>t c. (None, ''running''))\<rparr>"

lemma containerCalls_simps [simp]:
  "containerCalls [] = []"
  "containerCalls (Call k # es) = k # containerCalls es"
  "containerCalls (Broadcast ty m # es) = containerCalls es"
  "containerCalls (ClearLogBuffer # es) = containerCalls es"
  "containerCalls (SendPowerStatus a b c d # es) = containerCalls es"
  "containerCalls (SendError m # es) = containerCalls es"
  "containerCalls (es @ fs) = containerCalls es @ containerCalls fs"
  "containerCalls (map Call ks) = ks"
  by (simp_all add: containerCalls_def) (induction ks, simp_all)

lemma power_rejected:
  assumes "container_inspect eng c = Inr (status, err)"
    and "alreadyInState action (replace_str status ''exited'' ''stopped'')"
  shows "handlePowerAction eng c action =
           (Inr (), c,
            [Broadcast DAEMON (''Performing a '' @ action @ '' action on server...''),
             Call Inspect,
             Broadcast ERROR (''Failed to '' @ action @ '' server: '' @ ''Server is already in ''
                                @ replace_str status ''exited'' ''stopped'' @ '' state''),
             SendError (''Server is already in '' @ replace_str status ''exited'' ''stopped''
                          @ '' state'')])"
proof -
  from assms(2) have "action \<in> set [''start'', ''stop'', ''restart'', ''kill'']"
    by (auto simp: alreadyInState_def)
  with assms show ?thesis
    by (simp add: handlePowerAction_def Let_def powerFailed_def)
qed

lemma performAction_simps:
  "performAction eng ''stop'' c
     = (case container_stop eng (Some 30) c of (r, c') \<Rightarrow> (r, c', [Stop (Some 30)]))"
  "performAction eng ''kill'' c
     = (case container_kill eng c of (r, c') \<Rightarrow> (r, c', [Kill]))"
  "performAction eng ''restart'' c
     = (case container_restart eng (Some 30) c of
           (Some e, c') \<Rightarrow> (Some e, c', [Restart (Some 30)])
         | (None, c') \<Rightarrow> (None, c', [Restart (Some 30), FollowLogs]))"
  "performAction eng ''start'' c
     = (case container_start eng c of
           (Some e, c') \<Rightarrow> (Some e, c', [Start])
         | (None, c') \<Rightarrow> (None, c', [Start, FollowLogs]))"
  by (simp_all add: performAction_def)

lemma alreadyInState_simps:
  "alreadyInState ''stop'' s = (s = ''stopped'')"
  "alreadyInState ''kill'' s = (s = ''stopped'')"
  "alreadyInState ''restart'' s = (s = ''restarting'')"
  "alreadyInState ''start'' s = (s = ''running'')"
  by (simp_all add: alreadyInState_def)

lemma handlePowerAction_legal:
  assumes "container_inspect eng c = Inr (status, err)"
    and "action \<in> set [''start'', ''stop'', ''restart'', ''kill'']"
    and "\<not> alreadyInState action (replace_str status ''exited'' ''stopped'')"
  shows "handlePowerAction eng c action =
     (let announced =
            [Broadcast DAEMON (''Performing a '' @ action @ '' action on server...''),
             Call Inspect]
      in case performAction eng action c of
           (Some e, c', calls) \<Rightarrow>
             (Inr (), c', announced @ map Call calls @ powerFailed action e)
         | (None, c', calls) \<Rightarrow>
             (let done = announced @ map Call calls @ [ClearLogBuffer, Call Inspect]
              in case container_inspect eng c' of
                   Inl e \<Rightarrow> (Inr (), c', done @ powerFailed action e)
                 | Inr (state, err) \<Rightarrow>
                     (Inr (), c',
                      done @ [SendPowerStatus (statusMessage action state) action
                                (replace_str state ''exited'' ''stopped'') err])))"
  unfolding handlePowerAction_def Let_def using assms by simp

lemma legal_calls:
  assumes "container_inspect eng c = Inr (status, err)"
    and "action \<in> set [''start'', ''stop'', ''restart'', ''kill'']"
    and "\<not> alreadyInState action (replace_str status ''exited'' ''stopped'')"
  shows "containerCalls (snd (snd (handlePowerAction eng c action)))
           = Inspect # snd (snd (performAction eng action c))
               @ (if fst (performAction eng action c) = None then [Inspect] else [])"
  unfolding handlePowerAction_legal [OF assms]
  by (simp add: Let_def powerFailed_def split: prod.splits option.splits sum.splits)

text \<open>
  C5. Let the inspection of the container succeed and \<open>currentState\<close> be its status with
  \<open>exited\<close> read as \<open>stopped\<close>. For \<open>start\<close> in state \<open>running\<close>, \<open>stop\<close> or \<open>kill\<close> in
  state \<open>stopped\<close> and \<open>restart\<close> in state \<open>restarting\<close>, the action is rejected: the
  error \<open>Server is already in ... state\<close> is broadcast and sent as an \<open>error\<close> frame, the
  inspection is the only call of the container and the container is left as it was. In
  every other state \<open>stop\<close> is issued as \<open>stop({t: 30})\<close> and \<open>restart\<close> as
  \<open>restart({t: 30})\<close>, while \<open>kill\<close> is issued as \<open>kill()\<close> with no grace period; these
  are the first calls after the inspection, followed only by re-attaching the logs
  (after \<open>restart\<close> and \<open>start\<close>) and a second inspection when the call went through.
\<close>

theorem handlePowerAction_transitions:
  assumes "container_inspect eng c = Inr (status, err)"
    and "currentState = replace_str status ''exited'' ''stopped''"
  shows
   "((action = ''start'' \<and> currentState = ''running'')
       \<or> ((action = ''stop'' \<or> action = ''kill'') \<and> currentState = ''stopped'')
       \<or> (action = ''restart'' \<and> currentState = ''restarting'') \<longrightarrow>
       handlePowerAction eng c action =
         (Inr (), c,
          [Broadcast DAEMON (''Performing a '' @ action @ '' action on server...''),
           Call Inspect,
           Broadcast ERROR (''Failed to '' @ action @ '' server: '' @ ''Server is already in ''
                              @ currentState @ '' state''),
           SendError (''Server is already in '' @ currentState @ '' state'')])
       \<and> containerCalls (snd (snd (handlePowerAction eng c action))) = [Inspect])
    \<and> (currentState \<noteq> ''stopped'' \<longrightarrow>
         containerCalls (snd (snd (handlePowerAction eng c ''stop'')))
           = Inspect # Stop (Some 30)
               # (if fst (container_stop eng (Some 30) c) = None then [Inspect] else []))
    \<and> (currentState \<noteq> ''restarting'' \<longrightarrow>
         containerCalls (snd (snd (handlePowerAction eng c ''restart'')))
           = Inspect # Restart (Some 30)
               # (if fst (container_restart eng (Some 30) c) = None then [FollowLogs, Inspect] else []))
    \<and> (currentState \<noteq> ''stopped'' \<longrightarrow>
         containerCalls (snd (snd (handlePowerAction eng c ''kill'')))
           = Inspect # Kill # (if fst (container_kill eng c) = None then [Inspect] else []))
    \<and> (currentState \<noteq> ''running'' \<longrightarrow>
         containerCalls (snd (snd (handlePowerAction eng c ''start'')))
           = Inspect # Start
               # (if fst (container_start eng c) = None then [FollowLogs, Inspect] else []))"
proof (intro conjI impI)
  assume "(action = ''start'' \<and> currentState = ''running'')
       \<or> ((action = ''stop'' \<or> action = ''kill'') \<and> currentState = ''stopped'')
       \<or> (action = ''restart'' \<and> currentState = ''restarting'')"
  then have a: "alreadyInState action (replace_str status ''exited'' ''stopped'')"
    unfolding alreadyInState_def assms(2) .
  from power_rejected [OF assms(1) a]
  show rej: "handlePowerAction eng c action =
         (Inr (), c,
          [Broadcast DAEMON (''Performing a '' @ action @ '' action on server...''),
           Call Inspect,
           Broadcast ERROR (''Failed to '' @ action @ '' server: '' @ ''Server is already in ''
                              @ currentState @ '' state''),
           SendError (''Server is already in '' @ currentState @ '' state'')])"
    by (simp add: assms(2))
  show "containerCalls (snd (snd (handlePowerAction eng c action))) = [Inspect]"
    unfolding rej by simp
next
  assume "currentState \<noteq> ''stopped''"
  then have "\<not> alreadyInState ''stop'' (replace_str status ''exited'' ''stopped'')"
    by (simp add: alreadyInState_simps assms(2))
  from legal_calls [OF assms(1) _ this]
  show "containerCalls (snd (snd (handlePowerAction eng c ''stop'')))
           = Inspect # Stop (Some 30)
               # (if fst (container_stop eng (Some 30) c) = None then [Inspect] else [])"
    by (simp add: performAction_simps split: prod.splits)
next
  assume "currentState \<noteq> ''restarting''"
  then have "\<not> alreadyInState ''restart'' (replace_str status ''exited'' ''stopped'')"
    by (simp add: alreadyInState_simps assms(2))
  from legal_calls [OF assms(1) _ this]
  show "containerCalls (snd (snd (handlePowerAction eng c ''restart'')))
           = Inspect # Restart (Some 30)
               # (if fst (container_restart eng (Some 30) c) = None then [FollowLogs, Inspect] else [])"
    by (simp add: performAction_simps split: prod.splits option.splits)
next
  assume "currentState \<noteq> ''stopped''"
  then have "\<not> alreadyInState ''kill'' (replace_str status ''exited'' ''stopped'')"
    by (simp add: alreadyInState_simps assms(2))
  from legal_calls [OF assms(1) _ this]
  show "containerCalls (snd (snd (handlePowerAction eng c ''kill'')))
           = Inspect # Kill # (if fst (container_kill eng c) = None then [Inspect] else [])"
    by (simp add: performAction_simps split: prod.splits)
next
  assume "currentState \<noteq> ''running''"
  then have "\<not> alreadyInState ''start'' (replace_str status ''exited'' ''stopped'')"
    by (simp add: alreadyInState_simps assms(2))
  from legal_calls [OF assms(1) _ this]
  show "containerCalls (snd (snd (handlePowerAction eng c ''start'')))
           = Inspect # Start
               # (if fst (container_start eng c) = None then [FollowLogs, Inspect] else [])"
    by (simp add: performAction_simps split: prod.splits option.splits)
qed

lemma replace_exited:
  "replace_str ''running'' ''exited'' ''stopped'' = ''running''"
  "replace_str ''exited'' ''exited'' ''stopped'' = ''stopped''"
  by (simp_all add: replace_str_def startsWith_def)

text \<open>A running container: \<open>start\<close> is rejected, \<open>stop\<close>, \<open>restart\<close> and \<open>kill\<close> are issued.
  An exited container: \<open>stop\<close> is rejected.\<close>

theorem handlePowerAction_transitions_witness:
  "container_inspect simple_engine ''running'' = Inr (''running'', [])
   \<and> ''running'' = replace_str ''running'' ''exited'' ''stopped''
   \<and> handlePowerAction simple_engine ''running'' ''start'' =
        (Inr (), ''running'',
         [Broadcast DAEMON ''Performing a start action on server...'', Call Inspect,
          Broadcast ERROR ''Failed to start server: Server is already in running state'',
          SendError ''Server is already in running state''])
   \<and> containerCalls (snd (snd (handlePowerAction simple_engine ''running'' ''stop'')))
        = [Inspect, Stop (Some 30), Inspect]
   \<and> containerCalls (snd (snd (handlePowerAction simple_engine ''running'' ''restart'')))
        = [Inspect, Restart (Some 30), FollowLogs, Inspect]
   \<and> containerCalls (snd (snd (handlePowerAction simple_engine ''running'' ''kill'')))
        = [Inspect, Kill, Inspect]
   \<and> container_inspect simple_engine ''exited'' = Inr (''exited'', [])
   \<and> ''stopped'' = replace_str ''exited'' ''exited'' ''stopped''
   \<and> containerCalls (snd (snd (handlePowerAction simple_engine ''exited'' ''stop''))) = [Inspect]
   \<and> containerCalls (snd (snd (handlePowerAction simple_engine ''exited'' ''kill''))) = [Inspect]"
proof -
  have i1: "container_inspect simple_engine ''running'' = Inr (''running'', [])"
    and i2: "container_inspect simple_engine ''exited'' = Inr (''exited'', [])"
    by (simp_all add: simple_engine_def)
  have ok: "fst (container_stop simple_engine (Some 30) ''running'') = None"
    "fst (container_restart simple_engine (Some 30) ''running'') = None"
    "fst (container_kill simple_engine ''running'') = None"
    by (simp_all add: simple_engine_def)
  note r = handlePowerAction_transitions [OF i1 replace_exited(1) [symmetric]]
  note e = handlePowerAction_transitions [OF i2 replace_exited(2) [symmetric]]
  show ?thesis
    using r [of "''start''"] e [of "''stop''"] e [of "''kill''"] i1 i2 ok
    by (simp add: replace_exited)
qed

section \<open>Deleting a server (routers/servers.ts)\<close>

text \<open>\<open>sanitizeVolumeName\<close>: every character outside \<open>[a-zA-Z0-9_.-]\<close> becomes an underscore.\<close>

definition volumeNameChar :: "char \<Rightarrow> bool" where
  "volumeNameChar c =
     (let n = (of_char c :: nat)
      in (97 \<le> n \<and> n \<le> 122) \<or> (65 \<le> n \<and> n \<le> 90) \<or> (48 \<le> n \<and> n \<le> 57)
         \<or> c = CHR ''_'' \<or> c = CHR ''.'' \<or> c = CHR ''-'')"

definition sanitizeVolumeName :: "string \<Rightarrow> string" where
  "sanitizeVolumeName nm = map (\<lambda>c. if volumeNameChar c then c else CHR ''_'') nm"

text \<open>
  The world of the route: the rows of the table \<open>servers\<close> by id (of a row only the column
  \<open>docker_id\<close> is read, \<open>None\<close> for NULL), the containers the engine has, and the volume
  directories on disk.
\<close>

record serverRow =
  docker_id :: "string option"

record world =
  servers :: "string \<rightharpoonup> serverRow"
  containers :: "string set"
  volumes :: "string set"

text \<open>
  What goes wrong during one request, beyond what the world decides, each with the
  message of the error thrown: the SELECT throws, the engine cannot be reached, the
  removal of the directory throws, the DELETE statement throws.
\<close>

record faults =
  db_get_throws :: "string option"
  docker_throws :: "string option"
  fs_rm_throws :: "string option"
  db_run_throws :: "string option"

text \<open>The response: the status and the \<open>error\<close> field of the JSON body, if there is one.\<close>

datatype reply = Reply nat "string option"

text \<open>\<open>logEvent(id, message)\<close>, with the flag for the call that passes the error.\<close>

datatype log_event = LogEvent string string bool

text \<open>
  \<open>container.remove({ force: true, v: true })\<close> inside its own \<open>try\<close>: it throws when the
  engine cannot be reached or has no such container; the \<open>catch\<close> logs and goes on.
\<close>

definition removeContainer ::
  "faults \<Rightarrow> string \<Rightarrow> serverRow \<Rightarrow> world \<Rightarrow> world \<times> log_event list" where
  "removeContainer f sid server w =
     (case docker_id server of
        None \<Rightarrow> (w, [])
      | Some cid \<Rightarrow>
          if cid = [] then (w, [])
          else if docker_throws f \<noteq> None \<or> cid \<notin> containers w
          then (w, [LogEvent sid ''Failed to remove container'' True])
          else (w\<lparr>containers := containers w - {cid}\<rparr>,
                [LogEvent sid ''Removed container'' False]))"

text \<open>
  The handler of \<open>DELETE /:id\<close>. \<open>fs.rm\<close> with \<open>force\<close> does not mind a missing directory.
  Any error outside the inner \<open>try\<close> ends in the outer \<open>catch\<close>: status 500.
\<close>

definition deleteServer ::
  "string \<Rightarrow> faults \<Rightarrow> string \<Rightarrow> world \<Rightarrow> reply \<times> world \<times> log_event list" where
  "deleteServer volumesDirectory f sid w =
     (let safeId = sanitizeVolumeName sid
      in case db_get_throws f of
           Some msg \<Rightarrow> (Reply 500 (Some msg), w, [])
         | None \<Rightarrow>
           (case servers w sid of
              None \<Rightarrow> (Reply 404 (Some ''Server not found''), w, [])
            | Some server \<Rightarrow>
                (case removeContainer f sid server w of
                   (w1, log1) \<Rightarrow>
                     (let volumePath = volumesDirectory @ ''/'' @ safeId
                      in case fs_rm_throws f of
                           Some msg \<Rightarrow> (Reply 500 (Some msg), w1, log1)
                         | None \<Rightarrow>
                           (let w2 = w1\<lparr>volumes := volumes w1 - {volumePath}\<rparr>;
                                log2 = log1 @ [LogEvent sid ''Removed volume directory'' False]
                            in case db_run_throws f of
                                 Some msg \<Rightarrow> (Reply 500 (Some msg), w2, log2)
                               | None \<Rightarrow>
                                   (Reply 204 None,
                                    w2\<lparr>servers := (servers w2)(sid := None)\<rparr>,
                                    log2 @ [LogEvent sid ''Removed from database'' False]))))))"

text \<open>Nothing goes wrong beyond what the world decides.\<close>

definition no_faults :: faults where
  "no_faults = \<lparr>db_get_throws = None, docker_throws = None, fs_rm_throws = None,
                 db_run_throws = None\<rparr>"

text \<open>The server \<open>s1\<close> whose container \<open>c1\<close> the engine no longer has.\<close>

definition orphan_world :: world where
  "orphan_world = \<lparr>servers = [''s1'' \<mapsto> \<lparr>docker_id = Some ''c1''\<rparr>], containers = {},
                    volumes = {''/var/lib/krypton/volumes/s1''}\<rparr>"

lemma removeContainer_keeps:
  "removeContainer f sid server w = (w1, log1) \<Longrightarrow> servers w1 = servers w \<and> volumes w1 = volumes w"
  by (auto simp: removeContainer_def split: option.splits if_splits)

lemma removeContainer_failure_logged:
  assumes "docker_id server = Some cid" "cid \<noteq> []"
    "docker_throws f \<noteq> None \<or> cid \<notin> containers w"
  shows "removeContainer f sid server w = (w, [LogEvent sid ''Failed to remove container'' True])"
  using assms by (auto simp: removeContainer_def)

text \<open>
  C6. Let the record exist and let the SELECT, the removal of the directory and the
  DELETE statement not throw. Then whatever the removal of the container does (it may
  throw because the container is already gone or the engine is down), the request
  answers 204, the volume directory and then the record have been removed, and a failed
  removal of the container has been logged. A second DELETE of the same id whose SELECT
  does not throw answers 404 and changes nothing; it cannot answer 500.
\<close>

theorem delete_swallows_container_failure:
  assumes "servers w sid = Some server"
    and "db_get_throws f = None" "fs_rm_throws f = None" "db_run_throws f = None"
    and "db_get_throws f2 = None"
    and "deleteServer dir f sid w = (r1, w1, log1)"
    and "deleteServer dir f2 sid w1 = (r2, w2, log2)"
  shows "r1 = Reply 204 None
       \<and> servers w1 sid = None
       \<and> dir @ ''/'' @ sanitizeVolumeName sid \<notin> volumes w1
       \<and> (\<forall>cid. docker_id server = Some cid \<and> cid \<noteq> []
               \<and> (docker_throws f \<noteq> None \<or> cid \<notin> containers w)
             \<longrightarrow> LogEvent sid ''Failed to remove container'' True \<in> set log1
                 \<and> containers w1 = containers w)
       \<and> (\<exists>logc. log1 = logc @ [LogEvent sid ''Removed volume directory'' False,
                                  LogEvent sid ''Removed from database'' False])
       \<and> r2 = Reply 404 (Some ''Server not found'') \<and> w2 = w1 \<and> log2 = []"
proof -
  obtain wc logc where rc: "removeContainer f sid server w = (wc, logc)"
    by (cases "removeContainer f sid server w")
  from removeContainer_keeps [OF rc] have keep: "servers wc = servers w" "volumes wc = volumes w"
    by simp_all
  from assms(1-4,6) rc have first:
    "r1 = Reply 204 None"
    "w1 = wc\<lparr>volumes := volumes wc - {dir @ ''/'' @ sanitizeVolumeName sid},
              servers := (servers wc)(sid := None)\<rparr>"
    "log1 = logc @ [LogEvent sid ''Removed volume directory'' False,
                    LogEvent sid ''Removed from database'' False]"
    by (auto simp: deleteServer_def Let_def)
  then have gone: "servers w1 sid = None" by simp
  with assms(5,7) have second: "r2 = Reply 404 (Some ''Server not found'')" "w2 = w1" "log2 = []"
    by (auto simp: deleteServer_def Let_def)
  have logged: "LogEvent sid ''Failed to remove container'' True \<in> set log1
                 \<and> containers w1 = containers w"
    if "docker_id server = Some cid" "cid \<noteq> []"
       "docker_throws f \<noteq> None \<or> cid \<notin> containers w" for cid
    using removeContainer_failure_logged [OF that, of sid] rc first by auto
  from first have "\<exists>logc. log1 = logc @ [LogEvent sid ''Removed volume directory'' False,
                                  LogEvent sid ''Removed from database'' False]"
    by blast
  with first gone second logged show ?thesis by auto
qed

theorem delete_swallows_container_failure_witness:
  "servers orphan_world ''s1'' = Some \<lparr>docker_id = Some ''c1''\<rparr>
   \<and> ''c1'' \<notin> containers orphan_world
   \<and> fst (deleteServer ''/var/lib/krypton/volumes'' no_faults ''s1'' orphan_world) = Reply 204 None
   \<and> LogEvent ''s1'' ''Failed to remove container'' True
        \<in> set (snd (snd (deleteServer ''/var/lib/krypton/volumes'' no_faults ''s1'' orphan_world)))
   \<and> fst (deleteServer ''/var/lib/krypton/volumes'' no_faults ''s1''
            (fst (snd (deleteServer ''/var/lib/krypton/volumes'' no_faults ''s1'' orphan_world))))
        = Reply 404 (Some ''Server not found'')"
proof -
  have s: "servers orphan_world ''s1'' = Some \<lparr>docker_id = Some ''c1''\<rparr>"
    and c: "''c1'' \<notin> containers orphan_world"
    by (simp_all add: orphan_world_def)
  have n: "db_get_throws no_faults = None" "fs_rm_throws no_faults = None"
    "db_run_throws no_faults = None"
    by (simp_all add: no_faults_def)
  obtain r1 w1 log1 where d1:
    "deleteServer ''/var/lib/krypton/volumes'' no_faults ''s1'' orphan_world = (r1, w1, log1)"
    by (cases "deleteServer ''/var/lib/krypton/volumes'' no_faults ''s1'' orphan_world")
  obtain r2 w2 log2 where d2:
    "deleteServer ''/var/lib/krypton/volumes'' no_faults ''s1'' w1 = (r2, w2, log2)"
    by (cases "deleteServer ''/var/lib/krypton/volumes'' no_faults ''s1'' w1")
  from delete_swallows_container_failure [OF s n n(1) d1 d2] c
  have "r1 = Reply 204 None" "LogEvent ''s1'' ''Failed to remove container'' True \<in> set log1"
    "r2 = Reply 404 (Some ''Server not found'')"
    by auto
  with s c d1 d2 show ?thesis by simp
qed

section \<open>Validation cache of the session multiplexer (routers/websocket.ts)\<close>















end
